theory Spec2Isabelle
  imports Main "HOL-Library.Word"
begin

unbundle bit_operations_syntax

section \<open>Strings of the JavaScript runtime\<close>

text \<open>
  A JavaScript string is a sequence of 16-bit code units. \<open>js\<close> turns an ASCII literal
  of the theory into such a sequence.
\<close>

type_synonym jschar = "16 word"
type_synonym jsstring = "jschar list"

definition js :: "string \<Rightarrow> jsstring" where
  "js s = map of_char s"

text \<open>
  \<open>String.prototype.trim\<close> strips WhiteSpace and LineTerminator code units from both
  ends: TAB, LF, VT, FF, CR, SP, NBSP, U+1680, U+2000..U+200A, U+2028, U+2029, U+202F,
  U+205F, U+3000 and U+FEFF.
\<close>

definition is_space :: "jschar \<Rightarrow> bool" where
  "is_space c \<longleftrightarrow>
     (0x09 \<le> c \<and> c \<le> 0x0D) \<or> c = 0x20 \<or> c = 0xA0 \<or> c = 0x1680 \<or>
     (0x2000 \<le> c \<and> c \<le> 0x200A) \<or> c = 0x2028 \<or> c = 0x2029 \<or> c = 0x202F \<or>
     c = 0x205F \<or> c = 0x3000 \<or> c = 0xFEFF"

definition trim :: "jsstring \<Rightarrow> jsstring" where
  "trim s = rev (dropWhile is_space (rev (dropWhile is_space s)))"

text \<open>Truthiness of a string: the empty string is falsy, every other string is truthy.\<close>

definition truthy :: "jsstring \<Rightarrow> bool" where
  "truthy s \<longleftrightarrow> s \<noteq> []"

text \<open>Truthiness of a value of type \<open>string | null\<close>.\<close>

fun truthy_opt :: "jsstring option \<Rightarrow> bool" where
  "truthy_opt None = False"
| "truthy_opt (Some s) = truthy s"

text \<open>
  \<open>Date.now().toString()\<close>: the clock reading (milliseconds since the epoch, a natural
  number) in decimal, without leading zeros.
\<close>

definition digit :: "nat \<Rightarrow> jschar" where
  "digit d = 0x30 + of_nat d"

fun toString :: "nat \<Rightarrow> jsstring" where
  "toString n = (if n < 10 then [digit n] else toString (n div 10) @ [digit (n mod 10)])"

declare toString.simps [simp del]

section \<open>Data model\<close>

text \<open>The type \<open>Task\<close> of the source, lines 5 to 9.\<close>

record Task =
  id_f :: jsstring
  text_f :: jsstring
  completed :: bool

section \<open>JSON.stringify on a Task array\<close>

text \<open>
  \<open>QuoteJSONString\<close> of ECMA-262: the two-character escapes, \<open>\uXXXX\<close> with lower-case
  hexadecimal digits for the other control characters and for lone surrogates, every
  other code unit as it is. A lead surrogate followed by a trail surrogate is a code
  point of its own and is copied.
\<close>

definition hexdigit :: "jschar \<Rightarrow> jschar" where
  "hexdigit d = (if d < 10 then 0x30 + d else 0x57 + d)"

definition unicodeEscape :: "jschar \<Rightarrow> jsstring" where
  "unicodeEscape c =
     [0x5C, 0x75, hexdigit (drop_bit 12 c AND 0xF), hexdigit (drop_bit 8 c AND 0xF),
      hexdigit (drop_bit 4 c AND 0xF), hexdigit (c AND 0xF)]"

definition is_lead :: "jschar \<Rightarrow> bool" where
  "is_lead c \<longleftrightarrow> 0xD800 \<le> c \<and> c \<le> 0xDBFF"

definition is_trail :: "jschar \<Rightarrow> bool" where
  "is_trail c \<longleftrightarrow> 0xDC00 \<le> c \<and> c \<le> 0xDFFF"

definition quoteUnit :: "jschar \<Rightarrow> jsstring" where
  "quoteUnit c =
     (if c = 0x08 then [0x5C, 0x62]
      else if c = 0x09 then [0x5C, 0x74]
      else if c = 0x0A then [0x5C, 0x6E]
      else if c = 0x0C then [0x5C, 0x66]
      else if c = 0x0D then [0x5C, 0x72]
      else if c = 0x22 then [0x5C, 0x22]
      else if c = 0x5C then [0x5C, 0x5C]
      else if c < 0x20 \<or> is_lead c \<or> is_trail c then unicodeEscape c
      else [c])"

fun quoteChars :: "jsstring \<Rightarrow> jsstring" where
  "quoteChars [] = []"
| "quoteChars [c] = quoteUnit c"
| "quoteChars (c # d # cs) =
     (if is_lead c \<and> is_trail d then c # d # quoteChars cs
      else quoteUnit c @ quoteChars (d # cs))"

definition quoteJSONString :: "jsstring \<Rightarrow> jsstring" where
  "quoteJSONString s = 0x22 # quoteChars s @ [0x22]"

text \<open>
  An object with the properties \<open>id\<close>, \<open>text\<close> and \<open>completed\<close>, in the order in which
  \<open>addTask\<close> creates them and the spreads of \<open>toggleCompletion\<close> and \<open>updateTask\<close>
  keep them; no white space, since no indentation is asked for.
\<close>

definition stringifyTask :: "Task \<Rightarrow> jsstring" where
  "stringifyTask t =
     js ''{'' @ quoteJSONString (js ''id'') @ js '':'' @ quoteJSONString (id_f t) @
     js '','' @ quoteJSONString (js ''text'') @ js '':'' @ quoteJSONString (text_f t) @
     js '','' @ quoteJSONString (js ''completed'') @ js '':'' @
     (if completed t then js ''true'' else js ''false'') @ js ''}''"

fun stringifyElems :: "Task list \<Rightarrow> jsstring" where
  "stringifyElems [] = []"
| "stringifyElems [t] = stringifyTask t"
| "stringifyElems (t # u # ts) = stringifyTask t @ js '','' @ stringifyElems (u # ts)"

definition JSON_stringify :: "Task list \<Rightarrow> jsstring" where
  "JSON_stringify ts = js ''['' @ stringifyElems ts @ js '']''"

section \<open>State of the component\<close>

text \<open>
  The four \<open>useState\<close> cells of \<open>App\<close> (lines 12 to 15), the device's key-value store
  behind \<open>AsyncStorage\<close>, and the fade-outs that \<open>deleteTask\<close> has started and that
  have not yet completed. An \<open>Animated.Value\<close> is modelled by the opacity it was made with.

  The completion callback of a fade-out is a closure made by the render in which
  \<open>deleteTask\<close> ran: it holds \<open>taskId\<close> and that render's \<open>tasks\<close>. All fade-outs
  last 500 ms, so they complete in the order in which they were started. A fade-out in
  progress is kept with its \<open>taskId\<close>, the \<open>tasks\<close> of its callback, and whether the
  \<open>Animated.Value\<close> it runs on is still the one that the animations hold for that id
  (\<open>addTask\<close> puts a new value under the id of the new Task). The handlers themselves
  run one at a time, each on the state that the handlers before it have left.
\<close>

record app_state =
  task :: jsstring
  tasks :: "Task list"
  editingTask :: "jsstring option"
  animations :: "jsstring \<rightharpoonup> nat"
  storage :: "jsstring \<rightharpoonup> jsstring"
  fading :: "(jsstring \<times> Task list \<times> bool) list"

definition initial :: "(jsstring \<rightharpoonup> jsstring) \<Rightarrow> app_state" where
  "initial st =
     \<lparr>task = [], tasks = [], editingTask = None, animations = Map.empty,
      storage = st, fading = []\<rparr>"

section \<open>Handlers\<close>

text \<open>
  \<open>saveTasks\<close>, lines 31 to 33. The write is taken to reach the store at once and in
  call order.
\<close>

definition saveTasks :: "Task list \<Rightarrow> app_state \<Rightarrow> app_state" where
  "saveTasks ts s = s\<lparr>storage := (storage s)(js ''tasks'' \<mapsto> JSON_stringify ts)\<rparr>"

text \<open>The \<open>onChangeText\<close> handler of the input field, line 119.\<close>

definition onChangeText :: "jsstring \<Rightarrow> app_state \<Rightarrow> app_state" where
  "onChangeText txt s = s\<lparr>task := txt\<rparr>"

text \<open>
  A new \<open>Animated.Value\<close> is put under \<open>taskId\<close>: the fade-outs in progress for that
  id run on a value that the animations no longer hold.
\<close>

definition newValue :: "jsstring \<Rightarrow> (jsstring \<times> Task list \<times> bool) list
    \<Rightarrow> (jsstring \<times> Task list \<times> bool) list" where
  "newValue taskId fs = map (\<lambda>(i, captured, held). (i, captured, held \<and> i \<noteq> taskId)) fs"

text \<open>\<open>addTask\<close>, lines 39 to 54; \<open>now\<close> is what \<open>Date.now()\<close> returns.\<close>

definition addTask :: "nat \<Rightarrow> app_state \<Rightarrow> app_state" where
  "addTask now s =
     (if truthy (trim (task s)) then
        let newTask = \<lparr>id_f = toString now, text_f = task s, completed = False\<rparr>;
            updatedTasks = tasks s @ [newTask];
            s1 = s\<lparr>tasks := updatedTasks\<rparr>;
            s2 = saveTasks updatedTasks s1;
            s3 = s2\<lparr>task := []\<rparr>
        in s3\<lparr>animations := (animations s3)(id_f newTask \<mapsto> 1),
              fading := newValue (id_f newTask) (fading s3)\<rparr>
      else s)"

text \<open>\<open>toggleCompletion\<close>, lines 57 to 65.\<close>

definition toggleCompletion :: "jsstring \<Rightarrow> app_state \<Rightarrow> app_state" where
  "toggleCompletion taskId s =
     (let updatedTasks =
            map (\<lambda>item. if id_f item = taskId then item\<lparr>completed := \<not> completed item\<rparr>
                         else item) (tasks s)
      in saveTasks updatedTasks (s\<lparr>tasks := updatedTasks\<rparr>))"

text \<open>\<open>editTask\<close>, lines 68 to 74.\<close>

definition editTask :: "jsstring \<Rightarrow> app_state \<Rightarrow> app_state" where
  "editTask taskId s =
     (case find (\<lambda>item. id_f item = taskId) (tasks s) of
        Some taskToEdit \<Rightarrow> s\<lparr>task := text_f taskToEdit, editingTask := Some taskId\<rparr>
      | None \<Rightarrow> s)"

text \<open>\<open>updateTask\<close>, lines 77 to 87.\<close>

definition updateTask :: "app_state \<Rightarrow> app_state" where
  "updateTask s =
     (if truthy (trim (task s)) \<and> truthy_opt (editingTask s) then
        let updatedTasks =
              map (\<lambda>item. if Some (id_f item) = editingTask s then item\<lparr>text_f := task s\<rparr>
                           else item) (tasks s);
            s1 = s\<lparr>tasks := updatedTasks\<rparr>;
            s2 = saveTasks updatedTasks s1
        in s2\<lparr>task := [], editingTask := None\<rparr>
      else s)"

text \<open>
  The callback given to \<open>start\<close>, lines 98 to 107, run on the \<open>tasks\<close> it holds;
  \<open>setAnimations\<close> takes an updater, so the handle is removed from the animations of
  the moment. The callback does not look at its argument, so it does the same whether
  the fade-out has completed or was stopped.
\<close>

definition removeTask :: "jsstring \<Rightarrow> Task list \<Rightarrow> app_state \<Rightarrow> app_state" where
  "removeTask taskId captured s =
     (let updatedTasks = filter (\<lambda>item. id_f item \<noteq> taskId) captured;
          s1 = s\<lparr>tasks := updatedTasks\<rparr>;
          s2 = saveTasks updatedTasks s1
      in s2\<lparr>animations := (animations s2)(taskId := None)\<rparr>)"

text \<open>A fade-out in progress that runs on the value the animations hold for \<open>taskId\<close>.\<close>

definition onValueOf :: "jsstring \<Rightarrow> jsstring \<times> Task list \<times> bool \<Rightarrow> bool" where
  "onValueOf taskId f = (case f of (i, captured, held) \<Rightarrow> i = taskId \<and> held)"

text \<open>
  \<open>deleteTask\<close>, lines 91 to 109. Without an animation handle for \<open>taskId\<close> nothing
  happens. With one, the fade-out is started, and its callback holds \<open>taskId\<close> and the
  \<open>tasks\<close> of this render. Nothing is removed at this point, except that \<open>start\<close> on
  a value that is already fading stops the earlier fade-out first, which runs the
  callback of that fade-out at once.
\<close>

definition deleteTask :: "jsstring \<Rightarrow> app_state \<Rightarrow> app_state" where
  "deleteTask taskId s =
     (case animations s taskId of
        Some fadeValue \<Rightarrow>
          let stopped = filter (onValueOf taskId) (fading s);
              s1 = s\<lparr>fading := filter (\<lambda>f. \<not> onValueOf taskId f) (fading s)\<rparr>;
              s2 = foldl (\<lambda>s' (i, captured, held). removeTask i captured s') s1 stopped
          in s2\<lparr>fading := fading s2 @ [(taskId, tasks s, True)]\<rparr>
      | None \<Rightarrow> s)"

text \<open>The oldest fade-out in progress completes and its callback runs.\<close>

definition fadeOutDone :: "app_state \<Rightarrow> app_state" where
  "fadeOutDone s =
     (case fading s of
        [] \<Rightarrow> s
      | (taskId, captured, held) # rest \<Rightarrow> removeTask taskId captured (s\<lparr>fading := rest\<rparr>))"

text \<open>
  The \<open>onPress\<close> handler of the button beside the input field, line 123: it commits
  the edit when there is an edit target and adds a Task otherwise.
\<close>

definition onPress :: "nat \<Rightarrow> app_state \<Rightarrow> app_state" where
  "onPress now s = (if truthy_opt (editingTask s) then updateTask s else addTask now s)"

section \<open>Sequences of operations\<close>

text \<open>
  A sequence of \<open>add\<close> operations: for each one the text is typed into the input field
  and the button is pressed while \<open>Date.now()\<close> reads \<open>now\<close>.
\<close>

fun adds :: "(nat \<times> jsstring) list \<Rightarrow> app_state \<Rightarrow> app_state" where
  "adds [] s = s"
| "adds ((now, rawText) # ops) s = adds ops (addTask now (onChangeText rawText s))"

text \<open>Reading a decimal numeral back, used to show that \<open>toString\<close> is injective.\<close>

definition fromDigits :: "jsstring \<Rightarrow> nat" where
  "fromDigits ds = foldl (\<lambda>a c. 10 * a + (unat c - 48)) 0 ds"

text \<open>
  What can happen to the mounted component: a change of the input field, a call of one
  of the handlers, the completion of the oldest fade-out in progress, or a press on the
  button beside the input field.
\<close>

datatype event =
  ChangeText jsstring
| AddTask nat
| ToggleCompletion jsstring
| EditTask jsstring
| UpdateTask
| DeleteTask jsstring
| FadeOutDone
| PressButton nat

fun handle :: "event \<Rightarrow> app_state \<Rightarrow> app_state" where
  "handle (ChangeText txt) s = onChangeText txt s"
| "handle (AddTask now) s = addTask now s"
| "handle (ToggleCompletion taskId) s = toggleCompletion taskId s"
| "handle (EditTask taskId) s = editTask taskId s"
| "handle UpdateTask s = updateTask s"
| "handle (DeleteTask taskId) s = deleteTask taskId s"
| "handle FadeOutDone s = fadeOutDone s"
| "handle (PressButton now) s = onPress now s"

definition run :: "event list \<Rightarrow> app_state \<Rightarrow> app_state" where
  "run es s = foldl (\<lambda>s e. handle e s) s es"

text \<open>
  Event lists in which every press on a delete button is followed at once by the
  completion of its fade-out, and no fade-out completes otherwise.
\<close>

fun sequential :: "event list \<Rightarrow> bool" where
  "sequential [] = True"
| "sequential (DeleteTask taskId # FadeOutDone # es) = sequential es"
| "sequential (DeleteTask taskId # es) = False"
| "sequential (FadeOutDone # es) = False"
| "sequential (e # es) = sequential es"

text \<open>Every id of the collection has an animation handle.\<close>

definition handles_ok :: "app_state \<Rightarrow> bool" where
  "handles_ok s \<longleftrightarrow> list_all (\<lambda>item. animations s (id_f item) \<noteq> None) (tasks s)"

text \<open>
  No id is the empty string: not in the collection, not in the \<open>tasks\<close> held by the
  callback of a fade-out in progress, and not as edit target.
\<close>

definition nonempty_ids :: "app_state \<Rightarrow> bool" where
  "nonempty_ids s \<longleftrightarrow>
     list_all (\<lambda>item. id_f item \<noteq> []) (tasks s) \<and>
     list_all (\<lambda>(i, captured, held). list_all (\<lambda>item. id_f item \<noteq> []) captured) (fading s) \<and>
     editingTask s \<noteq> Some []"

section \<open>JSON.parse\<close>

text \<open>
  The values of the JSON grammar (ECMA-404). A number is kept as the text of its
  literal; an object is the list of its members in the order of the text.
\<close>

datatype json =
  JNull
| JBool bool
| JNumber jsstring
| JString jsstring
| JArray "json list"
| JObject "(jsstring \<times> json) list"

text \<open>JSON white space: TAB, LF, CR and SP.\<close>

definition is_ws :: "jschar \<Rightarrow> bool" where
  "is_ws c \<longleftrightarrow> c = 0x09 \<or> c = 0x0A \<or> c = 0x0D \<or> c = 0x20"

definition skip_ws :: "jsstring \<Rightarrow> jsstring" where
  "skip_ws cs = dropWhile is_ws cs"

definition is_digit :: "jschar \<Rightarrow> bool" where
  "is_digit c \<longleftrightarrow> 0x30 \<le> c \<and> c \<le> 0x39"

text \<open>The value of a hexadecimal digit, in either case.\<close>

definition hexval :: "jschar \<Rightarrow> jschar option" where
  "hexval c =
     (if 0x30 \<le> c \<and> c \<le> 0x39 then Some (c - 0x30)
      else if 0x61 \<le> c \<and> c \<le> 0x66 then Some (c - 0x57)
      else if 0x41 \<le> c \<and> c \<le> 0x46 then Some (c - 0x37)
      else None)"

definition hex4 :: "jschar \<Rightarrow> jschar \<Rightarrow> jschar \<Rightarrow> jschar \<Rightarrow> jschar option" where
  "hex4 a b c d =
     (case (hexval a, hexval b, hexval c, hexval d) of
        (Some h3, Some h2, Some h1, Some h0) \<Rightarrow>
          Some (push_bit 12 h3 OR push_bit 8 h2 OR push_bit 4 h1 OR h0)
      | _ \<Rightarrow> None)"

text \<open>The character after a backslash, other than \<open>u\<close>.\<close>

definition unescape :: "jschar \<Rightarrow> jschar option" where
  "unescape e =
     (if e = 0x22 then Some 0x22
      else if e = 0x5C then Some 0x5C
      else if e = 0x2F then Some 0x2F
      else if e = 0x62 then Some 0x08
      else if e = 0x66 then Some 0x0C
      else if e = 0x6E then Some 0x0A
      else if e = 0x72 then Some 0x0D
      else if e = 0x74 then Some 0x09
      else None)"

definition cons_result :: "'a \<Rightarrow> ('a list \<times> 'b) option \<Rightarrow> ('a list \<times> 'b) option" where
  "cons_result x r = (case r of None \<Rightarrow> None | Some (xs, rest) \<Rightarrow> Some (x # xs, rest))"

text \<open>
  The characters of a string after its opening quote, up to the closing quote: the
  string and the text that follows it. Control characters must be escaped.
\<close>

fun parseChars :: "jsstring \<Rightarrow> (jsstring \<times> jsstring) option" where
  "parseChars [] = None"
| "parseChars (c # cs) =
     (if c = 0x22 then Some ([], cs)
      else if c = 0x5C then
        (case cs of
           [] \<Rightarrow> None
         | e # r \<Rightarrow>
             if e = 0x75 then
               (case r of
                  h3 # h2 # h1 # h0 # r' \<Rightarrow>
                    (case hex4 h3 h2 h1 h0 of
                       None \<Rightarrow> None
                     | Some u \<Rightarrow> cons_result u (parseChars r'))
                | _ \<Rightarrow> None)
             else
               (case unescape e of
                  None \<Rightarrow> None
                | Some u \<Rightarrow> cons_result u (parseChars r)))
      else if c < 0x20 then None
      else cons_result c (parseChars cs))"

text \<open>
  A number literal: an optional minus sign, \<open>0\<close> or digits without a leading zero, an
  optional fraction and an optional exponent.
\<close>

definition parseDigits :: "jsstring \<Rightarrow> (jsstring \<times> jsstring) option" where
  "parseDigits cs =
     (if takeWhile is_digit cs = [] then None
      else Some (takeWhile is_digit cs, dropWhile is_digit cs))"

definition parseInt :: "jsstring \<Rightarrow> (jsstring \<times> jsstring) option" where
  "parseInt cs =
     (case cs of
        [] \<Rightarrow> None
      | d # r \<Rightarrow> if d = 0x30 then Some ([d], r) else parseDigits cs)"

definition parseFraction :: "jsstring \<Rightarrow> (jsstring \<times> jsstring) option" where
  "parseFraction cs =
     (case cs of
        [] \<Rightarrow> Some ([], cs)
      | d # r \<Rightarrow>
          if d = 0x2E then
            (case parseDigits r of None \<Rightarrow> None | Some (ds, r') \<Rightarrow> Some (d # ds, r'))
          else Some ([], cs))"

definition parseExponent :: "jsstring \<Rightarrow> (jsstring \<times> jsstring) option" where
  "parseExponent cs =
     (case cs of
        [] \<Rightarrow> Some ([], cs)
      | e # r \<Rightarrow>
          if e = 0x65 \<or> e = 0x45 then
            (case r of
               [] \<Rightarrow> None
             | sg # r' \<Rightarrow>
                 if sg = 0x2B \<or> sg = 0x2D then
                   (case parseDigits r' of
                      None \<Rightarrow> None
                    | Some (ds, r'') \<Rightarrow> Some (e # sg # ds, r''))
                 else
                   (case parseDigits r of
                      None \<Rightarrow> None
                    | Some (ds, r'') \<Rightarrow> Some (e # ds, r'')))
          else Some ([], cs))"

definition parseNumber :: "jsstring \<Rightarrow> (jsstring \<times> jsstring) option" where
  "parseNumber cs =
     (let (sign, r0) = (case cs of
                          [] \<Rightarrow> ([], cs)
                        | c # r \<Rightarrow> if c = 0x2D then ([c], r) else ([], cs))
      in case parseInt r0 of
           None \<Rightarrow> None
         | Some (i, r1) \<Rightarrow>
             (case parseFraction r1 of
                None \<Rightarrow> None
              | Some (f, r2) \<Rightarrow>
                  (case parseExponent r2 of
                     None \<Rightarrow> None
                   | Some (e, r3) \<Rightarrow> Some (sign @ i @ f @ e, r3))))"

definition parseLiteral :: "string \<Rightarrow> json \<Rightarrow> jsstring \<Rightarrow> (json \<times> jsstring) option" where
  "parseLiteral word v cs =
     (if take (length word) cs = js word then Some (v, drop (length word) cs) else None)"

text \<open>
  The recursive descent over values, the elements of an array after its opening
  bracket, and the members of an object after its opening brace. The first argument
  bounds the number of nested calls; \<open>JSON_parse\<close> starts with more than any text of
  that length can use.
\<close>

fun parseValue :: "nat \<Rightarrow> jsstring \<Rightarrow> (json \<times> jsstring) option"
  and parseElems :: "nat \<Rightarrow> jsstring \<Rightarrow> (json list \<times> jsstring) option"
  and parseMembers :: "nat \<Rightarrow> jsstring \<Rightarrow> ((jsstring \<times> json) list \<times> jsstring) option"
where
  "parseValue 0 cs = None"
| "parseValue (Suc n) cs =
     (case skip_ws cs of
        [] \<Rightarrow> None
      | c # r \<Rightarrow>
          if c = 0x7B then
            (case skip_ws r of
               [] \<Rightarrow> None
             | c' # r' \<Rightarrow>
                 if c' = 0x7D then Some (JObject [], r')
                 else (case parseMembers n r of
                         None \<Rightarrow> None
                       | Some (ms, rest) \<Rightarrow> Some (JObject ms, rest)))
          else if c = 0x5B then
            (case skip_ws r of
               [] \<Rightarrow> None
             | c' # r' \<Rightarrow>
                 if c' = 0x5D then Some (JArray [], r')
                 else (case parseElems n r of
                         None \<Rightarrow> None
                       | Some (vs, rest) \<Rightarrow> Some (JArray vs, rest)))
          else if c = 0x22 then
            (case parseChars r of
               None \<Rightarrow> None
             | Some (str, rest) \<Rightarrow> Some (JString str, rest))
          else if c = 0x74 then parseLiteral ''true'' (JBool True) (c # r)
          else if c = 0x66 then parseLiteral ''false'' (JBool False) (c # r)
          else if c = 0x6E then parseLiteral ''null'' JNull (c # r)
          else if c = 0x2D \<or> is_digit c then
            (case parseNumber (c # r) of
               None \<Rightarrow> None
             | Some (num, rest) \<Rightarrow> Some (JNumber num, rest))
          else None)"
| "parseElems 0 cs = None"
| "parseElems (Suc n) cs =
     (case parseValue n cs of
        None \<Rightarrow> None
      | Some (v, r) \<Rightarrow>
          (case skip_ws r of
             [] \<Rightarrow> None
           | c # r' \<Rightarrow>
               if c = 0x2C then cons_result v (parseElems n r')
               else if c = 0x5D then Some ([v], r')
               else None))"
| "parseMembers 0 cs = None"
| "parseMembers (Suc n) cs =
     (case skip_ws cs of
        [] \<Rightarrow> None
      | q # r \<Rightarrow>
          if q = 0x22 then
            (case parseChars r of
               None \<Rightarrow> None
             | Some (key, r1) \<Rightarrow>
                 (case skip_ws r1 of
                    [] \<Rightarrow> None
                  | colon # r2 \<Rightarrow>
                      if colon = 0x3A then
                        (case parseValue n r2 of
                           None \<Rightarrow> None
                         | Some (v, r3) \<Rightarrow>
                             (case skip_ws r3 of
                                [] \<Rightarrow> None
                              | c # r4 \<Rightarrow>
                                  if c = 0x2C then cons_result (key, v) (parseMembers n r4)
                                  else if c = 0x7D then Some ([(key, v)], r4)
                                  else None))
                      else None))
          else None)"

text \<open>
  \<open>JSON.parse\<close>: one value with nothing but white space after it; \<open>None\<close> stands for
  the \<open>SyntaxError\<close> that is thrown otherwise. The bound on the nested calls is
  larger than what a text of this length can need (lemma \<open>fuel_enough\<close> below).
\<close>

definition JSON_parse :: "jsstring \<Rightarrow> json option" where
  "JSON_parse s =
     (case parseValue (2 * length s + 1) s of
        None \<Rightarrow> None
      | Some (v, rest) \<Rightarrow> if skip_ws rest = [] then Some v else None)"

text \<open>
  A parsed value as a \<open>Task list\<close>: an array of objects with exactly the members
  \<open>id\<close> and \<open>text\<close>, both strings, and \<open>completed\<close>, a boolean, in this order. These
  are the values that a record of type \<open>Task\<close> stands for without loss; for every other
  value (another order of the members, more or fewer members, other types) the result
  is \<open>None\<close>.
\<close>

fun asTask :: "json \<Rightarrow> Task option" where
  "asTask (JObject [(k1, JString i), (k2, JString t), (k3, JBool c)]) =
     (if k1 = js ''id'' \<and> k2 = js ''text'' \<and> k3 = js ''completed''
      then Some \<lparr>id_f = i, text_f = t, completed = c\<rparr> else None)"
| "asTask _ = None"

fun asTaskList :: "json list \<Rightarrow> Task list option" where
  "asTaskList [] = Some []"
| "asTaskList (v # vs) =
     (case asTask v of
        None \<Rightarrow> None
      | Some t \<Rightarrow> (case asTaskList vs of None \<Rightarrow> None | Some ts \<Rightarrow> Some (t # ts)))"

fun asTasks :: "json \<Rightarrow> Task list option" where
  "asTasks (JArray vs) = asTaskList vs"
| "asTasks _ = None"

section \<open>Loading\<close>

text \<open>
  What \<open>parsedTasks.forEach\<close> with the callback of lines 24 to 26 throws. A value that
  is no array has no method \<open>forEach\<close>; on an array the callback reads \<open>task.id\<close> and
  \<open>task.completed\<close>, which throws on \<open>null\<close> and on no other element.
\<close>

datatype js_error = SyntaxError | TypeError

fun forEachError :: "json \<Rightarrow> js_error option" where
  "forEachError (JArray vs) = (if JNull \<in> set vs then Some TypeError else None)"
| "forEachError _ = Some TypeError"

text \<open>
  How a call of \<open>loadTasks\<close> ends.
  \<^item> \<open>Fulfilled\<close>: the promise is fulfilled, in the given state.
  \<^item> \<open>Rejected\<close>: the promise is rejected with the error that was thrown, in the given
    state.
  \<^item> \<open>Untyped\<close>: the parsed value is none that \<open>asTasks\<close> accepts. \<open>setTasks\<close> has
    taken it unchecked (line 21), so that \<open>tasks\<close> is this value, which the state of this
    theory cannot hold. With an error, \<open>forEach\<close> has thrown it, the animations are as
    before and the promise is rejected; without one the animations are set too and the
    promise is fulfilled.
\<close>

datatype load_result =
  Fulfilled app_state
| Rejected js_error app_state
| Untyped json "js_error option"

text \<open>
  \<open>loadTasks\<close>, lines 17 to 29. \<open>getItem\<close> gives \<open>null\<close> for a key that was never
  written; \<open>null\<close> and the empty string are falsy. The store is a map, so reading it
  does not fail. \<open>loadTasks\<close> is called once, when the component is mounted and no
  fade-out is in progress.
\<close>

definition loadTasks :: "app_state \<Rightarrow> load_result" where
  "loadTasks s =
     (case storage s (js ''tasks'') of
        None \<Rightarrow> Fulfilled s
      | Some savedTasks \<Rightarrow>
          if truthy savedTasks then
            (case JSON_parse savedTasks of
               None \<Rightarrow> Rejected SyntaxError s
             | Some parsed \<Rightarrow>
                 (case asTasks parsed of
                    None \<Rightarrow> Untyped parsed (forEachError parsed)
                  | Some parsedTasks \<Rightarrow>
                      Fulfilled (s\<lparr>tasks := parsedTasks,
                        animations :=
                          foldl (\<lambda>newAnimations item. newAnimations(id_f item \<mapsto> 1))
                            Map.empty parsedTasks\<rparr>)))
          else Fulfilled s)"

text \<open>The value that \<open>JSON.stringify\<close> writes for a Task, used to state what is read back.\<close>

definition toJSON :: "Task \<Rightarrow> json" where
  "toJSON t =
     JObject [(js ''id'', JString (id_f t)), (js ''text'', JString (text_f t)),
              (js ''completed'', JBool (completed t))]"

section \<open>Properties\<close>

subsection \<open>Auxiliary facts\<close>

lemma saveTasks_simps:
  "tasks (saveTasks ts s) = tasks s"
  "task (saveTasks ts s) = task s"
  "editingTask (saveTasks ts s) = editingTask s"
  "animations (saveTasks ts s) = animations s"
  "fading (saveTasks ts s) = fading s"
  "storage (saveTasks ts s) (js ''tasks'') = Some (JSON_stringify ts)"
  by (simp_all add: saveTasks_def)

lemma map_if_id_absent:
  "taskId \<notin> id_f ` set ts \<Longrightarrow>
   map (\<lambda>item. if id_f item = taskId then f item else item) ts = ts"
  by (induction ts) auto

lemma tasks_toggleCompletion:
  "tasks (toggleCompletion taskId s) =
     map (\<lambda>item. if id_f item = taskId then item\<lparr>completed := \<not> completed item\<rparr> else item)
       (tasks s)"
  by (simp add: toggleCompletion_def Let_def saveTasks_simps)

lemma flip_twice:
  "map (\<lambda>item. if id_f item = taskId then item\<lparr>completed := \<not> completed item\<rparr> else item)
     (map (\<lambda>item. if id_f item = taskId then item\<lparr>completed := \<not> completed item\<rparr> else item)
        ts) = ts"
  by (induction ts) auto

subsection \<open>Toggling\<close>

text \<open>
  Claim C5. Two calls of \<open>toggleCompletion\<close> with the same id give back the collection
  they started from. One call negates \<open>completed\<close> in the Tasks whose id is \<open>taskId\<close>
  and changes nothing else in the collection; with no such Task the collection stays as
  it is. The collection is written to the store in each case.
\<close>

theorem toggleCompletion_involution:
  "tasks (toggleCompletion taskId (toggleCompletion taskId s)) = tasks s \<and>
   tasks (toggleCompletion taskId s) =
     map (\<lambda>item. if id_f item = taskId then item\<lparr>completed := \<not> completed item\<rparr> else item)
       (tasks s) \<and>
   (taskId \<notin> id_f ` set (tasks s) \<longrightarrow> tasks (toggleCompletion taskId s) = tasks s) \<and>
   storage (toggleCompletion taskId s) (js ''tasks'') =
     Some (JSON_stringify (tasks (toggleCompletion taskId s)))"
proof -
  have twice: "tasks (toggleCompletion taskId (toggleCompletion taskId s)) = tasks s"
    by (simp add: tasks_toggleCompletion flip_twice del: map_map)
  have absent: "taskId \<notin> id_f ` set (tasks s) \<longrightarrow> tasks (toggleCompletion taskId s) = tasks s"
    by (simp add: tasks_toggleCompletion map_if_id_absent)
  have saved: "storage (toggleCompletion taskId s) (js ''tasks'') =
      Some (JSON_stringify (tasks (toggleCompletion taskId s)))"
    by (simp add: toggleCompletion_def Let_def saveTasks_simps)
  from twice absent saved tasks_toggleCompletion [of taskId s] show ?thesis
    by blast
qed

theorem toggleCompletion_involution_witness:
  "js ''2'' \<notin> id_f ` set (tasks ((initial Map.empty)
      \<lparr>tasks := [\<lparr>id_f = js ''1'', text_f = js ''milk'', completed = False\<rparr>]\<rparr>)) \<and>
   tasks (toggleCompletion (js ''2'') ((initial Map.empty)
      \<lparr>tasks := [\<lparr>id_f = js ''1'', text_f = js ''milk'', completed = False\<rparr>]\<rparr>)) =
     [\<lparr>id_f = js ''1'', text_f = js ''milk'', completed = False\<rparr>] \<and>
   tasks (toggleCompletion (js ''1'') ((initial Map.empty)
      \<lparr>tasks := [\<lparr>id_f = js ''1'', text_f = js ''milk'', completed = False\<rparr>]\<rparr>)) =
     [\<lparr>id_f = js ''1'', text_f = js ''milk'', completed = True\<rparr>]"
  using toggleCompletion_involution [of "js ''2''" "(initial Map.empty)
      \<lparr>tasks := [\<lparr>id_f = js ''1'', text_f = js ''milk'', completed = False\<rparr>]\<rparr>"]
    toggleCompletion_involution [of "js ''1''" "(initial Map.empty)
      \<lparr>tasks := [\<lparr>id_f = js ''1'', text_f = js ''milk'', completed = False\<rparr>]\<rparr>"]
  by (simp add: initial_def js_def)

subsection \<open>Rejected input\<close>

text \<open>
  Claim C6. When the pending input is empty after trimming (the empty string, or white
  space only), \<open>addTask\<close> and \<open>updateTask\<close> return the state they were given: the
  collection, the store and the pending input are the same, and there is no error
  branch to take.
\<close>

theorem empty_input_ignored:
  "trim (task s) = [] \<Longrightarrow> addTask now s = s \<and> updateTask s = s"
  by (simp add: addTask_def updateTask_def truthy_def)

theorem empty_input_ignored_witness:
  "trim (task (onChangeText (js ''   '') (initial Map.empty))) = [] \<and>
   addTask 5 (onChangeText (js ''   '') (initial Map.empty)) =
     onChangeText (js ''   '') (initial Map.empty) \<and>
   updateTask (onChangeText (js ''   '') (initial Map.empty)) =
     onChangeText (js ''   '') (initial Map.empty)"
proof -
  have h: "trim (task (onChangeText (js ''   '') (initial Map.empty))) = []"
    by (simp add: onChangeText_def trim_def js_def is_space_def)
  from h empty_input_ignored [OF h] show ?thesis
    by blast
qed

subsection \<open>Adding\<close>

lemma unat_digit: "d < 10 \<Longrightarrow> unat (digit d) - 48 = d"
  by (simp add: digit_def unat_word_ariths unat_of_nat)

lemma fromDigits_toString: "fromDigits (toString n) = n"
proof (induction n rule: toString.induct)
  case (1 n)
  show ?case
  proof (cases "n < 10")
    case True
    then show ?thesis by (simp add: toString.simps [of n] fromDigits_def unat_digit)
  next
    case False
    with 1 have "fromDigits (toString (n div 10)) = n div 10" by simp
    with False show ?thesis
      by (simp add: toString.simps [of n] fromDigits_def unat_digit)
  qed
qed

lemma toString_inj: "toString a = toString b \<Longrightarrow> a = b"
  by (metis fromDigits_toString)

lemma toString_1_2: "toString (Suc 0) = [0x31]" "toString 2 = [0x32]" "toString 3 = [0x33]"
  by (simp_all add: toString.simps digit_def)

lemma addTask_accepts:
  assumes "trim (task s) \<noteq> []"
  shows "addTask now s =
    s\<lparr>tasks := tasks s @ [\<lparr>id_f = toString now, text_f = task s, completed = False\<rparr>],
      storage := (storage s)(js ''tasks'' \<mapsto>
        JSON_stringify (tasks s @ [\<lparr>id_f = toString now, text_f = task s, completed = False\<rparr>])),
      task := [],
      animations := (animations s)(toString now \<mapsto> 1),
      fading := newValue (toString now) (fading s)\<rparr>"
  using assms by (simp add: addTask_def Let_def saveTasks_def truthy_def)

lemma tasks_adds:
  "\<forall>op \<in> set ops. trim (snd op) \<noteq> [] \<Longrightarrow>
   tasks (adds ops s) =
     tasks s @ map (\<lambda>op. \<lparr>id_f = toString (fst op), text_f = snd op, completed = False\<rparr>) ops"
proof (induction ops arbitrary: s)
  case Nil
  then show ?case by simp
next
  case (Cons op ops)
  obtain now rawText where op: "op = (now, rawText)" by (cases op)
  with Cons.prems have ne: "trim (task (onChangeText rawText s)) \<noteq> []"
    by (simp add: onChangeText_def)
  have step: "tasks (addTask now (onChangeText rawText s)) =
      tasks s @ [\<lparr>id_f = toString now, text_f = rawText, completed = False\<rparr>]"
    by (simp add: addTask_accepts [OF ne]) (simp add: onChangeText_def)
  from Cons.prems have rest: "\<forall>op \<in> set ops. trim (snd op) \<noteq> []" by simp
  show ?case
    unfolding op adds.simps Cons.IH [OF rest] step by simp
qed

lemma distinct_toString:
  "distinct (map (\<lambda>op. toString (fst op)) ops) = distinct (map fst ops)"
proof -
  have "map (\<lambda>op. toString (fst op)) ops = map toString (map fst ops)" by simp
  moreover have "inj_on toString (set (map fst ops))"
    by (rule inj_onI) (rule toString_inj)
  ultimately show ?thesis by (simp only: distinct_map) simp
qed

lemma image_meets: "A \<inter> g ` S \<noteq> {} \<Longrightarrow> \<exists>x\<in>S. g x \<in> A"
  by blast

lemma adds_prefix_distinct:
  assumes ne: "\<forall>op \<in> set ops. trim (snd op) \<noteq> []"
    and d: "distinct (map id_f (tasks s))" and c: "distinct (map fst ops)"
    and f: "\<forall>op \<in> set ops. toString (fst op) \<notin> id_f ` set (tasks s)"
  shows "distinct (map id_f (tasks (adds (take n ops) s)))"
proof -
  have sub: "set (take n ops) \<subseteq> set ops" by (rule set_take_subset)
  from ne sub have ne': "\<forall>op \<in> set (take n ops). trim (snd op) \<noteq> []" by blast
  from c have "distinct (map fst (take n ops))" by (simp add: take_map [symmetric])
  then have c': "distinct (map (\<lambda>op. toString (fst op)) (take n ops))"
    by (simp only: distinct_toString)
  have disj: "id_f ` set (tasks s) \<inter> (\<lambda>op. toString (fst op)) ` set (take n ops) = {}"
  proof (rule ccontr)
    assume "id_f ` set (tasks s) \<inter> (\<lambda>op. toString (fst op)) ` set (take n ops) \<noteq> {}"
    then have "\<exists>x\<in>set (take n ops). toString (fst x) \<in> id_f ` set (tasks s)"
      by (rule image_meets)
    then obtain x where "x \<in> set (take n ops)" "toString (fst x) \<in> id_f ` set (tasks s)" ..
    with f sub show False by (meson subsetD)
  qed
  show ?thesis
    unfolding tasks_adds [OF ne'] using d c' disj by (simp add: o_def)
qed

text \<open>
  Claim C1, amended. After a sequence of \<open>add\<close> operations whose texts are all non-empty
  after trimming, from any state, the collection is longer by the number of operations.
  The ids are pairwise distinct after the first \<open>n\<close> operations, for every \<open>n\<close>,
  provided that they were distinct before the sequence, that the clock readings of the
  operations are pairwise different, and that the decimal numeral of none of them is
  the id of a Task of the starting collection.
\<close>

theorem adds_length_distinct:
  assumes "\<forall>op \<in> set ops. trim (snd op) \<noteq> []"
  shows "length (tasks (adds ops s)) = length (tasks s) + length ops \<and>
    (distinct (map id_f (tasks s)) \<and> distinct (map fst ops) \<and>
     (\<forall>op \<in> set ops. toString (fst op) \<notin> id_f ` set (tasks s)) \<longrightarrow>
     distinct (map id_f (tasks (adds (take n ops) s))))"
  using assms by (simp add: tasks_adds adds_prefix_distinct)

theorem adds_length_distinct_witness:
  "trim (js ''a'') \<noteq> [] \<and> trim (js ''b'') \<noteq> [] \<and>
   distinct (map id_f (tasks (initial Map.empty))) \<and>
   distinct (map fst [(5::nat, js ''a''), (6, js ''b'')]) \<and>
   toString 5 \<notin> id_f ` set (tasks (initial Map.empty)) \<and>
   toString 6 \<notin> id_f ` set (tasks (initial Map.empty)) \<and>
   length (tasks (adds [(5, js ''a''), (6, js ''b'')] (initial Map.empty))) = 2 \<and>
   distinct (map id_f (tasks (adds [(5, js ''a''), (6, js ''b'')] (initial Map.empty))))"
proof -
  have h: "\<forall>op \<in> set [(5::nat, js ''a''), (6, js ''b'')]. trim (snd op) \<noteq> []"
    by (simp add: trim_def js_def is_space_def)
  have i: "tasks (initial Map.empty) = []"
    by (simp add: initial_def)
  from adds_length_distinct [OF h, of "initial Map.empty" 2] h i show ?thesis
    by simp
qed

text \<open>
  The claim as it was stated fails when the clock gives the same reading to two \<open>add\<close>
  operations: both Tasks get the id \<open>5\<close>.
\<close>

theorem adds_same_reading_counterexample:
  "\<not> distinct (map id_f (tasks (adds [(5, js ''a''), (5, js ''b'')] (initial Map.empty))))"
  by (simp add: addTask_def onChangeText_def initial_def Let_def saveTasks_def truthy_def
      trim_def js_def is_space_def)

text \<open>
  Claim C3, amended. When the text in the input field is non-empty after trimming,
  \<open>addTask\<close> appends one Task at the end of the collection, with the text as it was
  typed (not trimmed), \<open>completed = false\<close>, and as id the decimal numeral of the clock
  reading, whether or not a Task of the collection has that id already. The Tasks that
  were there stay as they were, the new collection is written to the store, the input
  field is emptied, and the id gets an animation handle.
\<close>

theorem addTask_appends:
  assumes "trim rawText \<noteq> []"
  shows "tasks (addTask now (onChangeText rawText s)) =
      tasks s @ [\<lparr>id_f = toString now, text_f = rawText, completed = False\<rparr>] \<and>
    storage (addTask now (onChangeText rawText s)) (js ''tasks'') =
      Some (JSON_stringify (tasks (addTask now (onChangeText rawText s)))) \<and>
    task (addTask now (onChangeText rawText s)) = [] \<and>
    editingTask (addTask now (onChangeText rawText s)) = editingTask s \<and>
    animations (addTask now (onChangeText rawText s)) = (animations s)(toString now \<mapsto> 1)"
proof -
  from assms have ne: "trim (task (onChangeText rawText s)) \<noteq> []"
    by (simp add: onChangeText_def)
  show ?thesis
    by (simp add: addTask_accepts [OF ne]) (simp add: onChangeText_def)
qed

theorem addTask_appends_witness:
  "trim (js '' Buy milk'') \<noteq> [] \<and>
   tasks (addTask 7 (onChangeText (js '' Buy milk'') (initial Map.empty))) =
     [\<lparr>id_f = js ''7'', text_f = js '' Buy milk'', completed = False\<rparr>] \<and>
   task (addTask 7 (onChangeText (js '' Buy milk'') (initial Map.empty))) = []"
proof -
  have h: "trim (js '' Buy milk'') \<noteq> []"
    by (simp add: trim_def js_def is_space_def)
  have i: "tasks (initial Map.empty) = []"
    by (simp add: initial_def)
  have n: "toString 7 = js ''7''"
    by (simp add: toString.simps js_def digit_def)
  from addTask_appends [OF h, of 7 "initial Map.empty"] h i n show ?thesis
    by simp
qed

text \<open>
  The claim as it was stated has the id fresh. With the clock at 7 for two \<open>add\<close>
  operations, the id of the second Task is the id of the first.
\<close>

theorem addTask_id_in_use_counterexample:
  "id_f (last (tasks (addTask 7 (onChangeText (js ''b'')
      (addTask 7 (onChangeText (js ''a'') (initial Map.empty)))))))
   \<in> id_f ` set (tasks (addTask 7 (onChangeText (js ''a'') (initial Map.empty))))"
  by (simp add: addTask_def onChangeText_def initial_def Let_def saveTasks_def truthy_def
      trim_def js_def is_space_def)

subsection \<open>Ids are never empty\<close>

lemma toString_nonempty: "toString n \<noteq> []"
  by (subst toString.simps) simp

lemma nonempty_ids_initial: "nonempty_ids (initial st)"
  by (simp add: nonempty_ids_def initial_def)

lemma nonempty_ids_onChangeText: "nonempty_ids s \<Longrightarrow> nonempty_ids (onChangeText txt s)"
  by (simp add: nonempty_ids_def onChangeText_def)

lemma nonempty_ids_addTask: "nonempty_ids s \<Longrightarrow> nonempty_ids (addTask now s)"
  by (auto simp add: nonempty_ids_def addTask_def Let_def saveTasks_def newValue_def
      toString_nonempty list_all_iff)

lemma nonempty_ids_toggleCompletion:
  "nonempty_ids s \<Longrightarrow> nonempty_ids (toggleCompletion taskId s)"
  by (auto simp add: nonempty_ids_def toggleCompletion_def Let_def saveTasks_def list_all_iff)

lemma nonempty_ids_editTask: "nonempty_ids s \<Longrightarrow> nonempty_ids (editTask taskId s)"
proof (cases "find (\<lambda>item. id_f item = taskId) (tasks s)")
  case None
  assume "nonempty_ids s"
  with None show ?thesis by (simp add: editTask_def)
next
  case (Some taskToEdit)
  assume inv: "nonempty_ids s"
  from Some have "taskToEdit \<in> set (tasks s)" and "id_f taskToEdit = taskId"
    by (auto simp add: find_Some_iff)
  with inv have "taskId \<noteq> []"
    by (auto simp add: nonempty_ids_def list_all_iff)
  with inv Some show ?thesis
    by (simp add: editTask_def nonempty_ids_def)
qed

lemma nonempty_ids_updateTask: "nonempty_ids s \<Longrightarrow> nonempty_ids (updateTask s)"
  by (auto simp add: nonempty_ids_def updateTask_def Let_def saveTasks_def list_all_iff)

lemma nonempty_ids_onPress: "nonempty_ids s \<Longrightarrow> nonempty_ids (onPress now s)"
  by (simp add: onPress_def nonempty_ids_addTask nonempty_ids_updateTask)

lemma nonempty_ids_removeTask:
  "nonempty_ids s \<Longrightarrow> list_all (\<lambda>item. id_f item \<noteq> []) captured \<Longrightarrow>
   nonempty_ids (removeTask taskId captured s)"
  by (auto simp add: nonempty_ids_def removeTask_def Let_def saveTasks_def list_all_iff)

lemma nonempty_ids_stopped:
  "nonempty_ids s \<Longrightarrow>
   list_all (\<lambda>(i, captured, held). list_all (\<lambda>item. id_f item \<noteq> []) captured) fs \<Longrightarrow>
   nonempty_ids (foldl (\<lambda>s' (i, captured, held). removeTask i captured s') s fs)"
proof (induction fs arbitrary: s)
  case Nil
  then show ?case by simp
next
  case (Cons f fs)
  obtain i captured held where f: "f = (i, captured, held)" by (cases f)
  with Cons.prems have "nonempty_ids (removeTask i captured s)"
    by (simp add: nonempty_ids_removeTask)
  with Cons.IH [of "removeTask i captured s"] Cons.prems(2) f show ?case
    by simp
qed

lemma fading_removeTask: "fading (removeTask taskId captured s) = fading s"
  by (simp add: removeTask_def Let_def saveTasks_def)

lemma fading_stopped:
  "fading (foldl (\<lambda>s' (i, captured, held). removeTask i captured s') s fs) = fading s"
  by (induction fs arbitrary: s) (auto simp add: fading_removeTask)

lemma nonempty_ids_deleteTask: "nonempty_ids s \<Longrightarrow> nonempty_ids (deleteTask taskId s)"
proof (cases "animations s taskId")
  case None
  assume "nonempty_ids s"
  with None show ?thesis by (simp add: deleteTask_def)
next
  case (Some fadeValue)
  assume inv: "nonempty_ids s"
  let ?kept = "filter (\<lambda>f. \<not> onValueOf taskId f) (fading s)"
  let ?stopped = "filter (onValueOf taskId) (fading s)"
  let ?s2 = "foldl (\<lambda>s' (i, captured, held). removeTask i captured s')
      (s\<lparr>fading := ?kept\<rparr>) ?stopped"
  from inv have "nonempty_ids (s\<lparr>fading := ?kept\<rparr>)"
    by (auto simp add: nonempty_ids_def list_all_iff)
  moreover from inv
  have "list_all (\<lambda>(i, captured, held). list_all (\<lambda>item. id_f item \<noteq> []) captured) ?stopped"
    by (auto simp add: nonempty_ids_def list_all_iff)
  ultimately have s2: "nonempty_ids ?s2"
    by (rule nonempty_ids_stopped)
  have "fading ?s2 = ?kept"
    by (simp add: fading_stopped)
  with s2 inv have "nonempty_ids (?s2\<lparr>fading := fading ?s2 @ [(taskId, tasks s, True)]\<rparr>)"
    by (auto simp add: nonempty_ids_def list_all_iff)
  with Some show ?thesis
    by (simp add: deleteTask_def Let_def)
qed

lemma nonempty_ids_fadeOutDone: "nonempty_ids s \<Longrightarrow> nonempty_ids (fadeOutDone s)"
proof (cases "fading s")
  case Nil
  assume "nonempty_ids s"
  with Nil show ?thesis by (simp add: fadeOutDone_def)
next
  case (Cons f rest)
  assume inv: "nonempty_ids s"
  obtain i captured held where f: "f = (i, captured, held)" by (cases f)
  from inv Cons f have "nonempty_ids (s\<lparr>fading := rest\<rparr>)"
    and "list_all (\<lambda>item. id_f item \<noteq> []) captured"
    by (auto simp add: nonempty_ids_def)
  then have "nonempty_ids (removeTask i captured (s\<lparr>fading := rest\<rparr>))"
    by (rule nonempty_ids_removeTask)
  with Cons f show ?thesis by (simp add: fadeOutDone_def)
qed

lemma nonempty_ids_handle: "nonempty_ids s \<Longrightarrow> nonempty_ids (handle e s)"
  by (cases e)
    (simp_all add: nonempty_ids_onChangeText nonempty_ids_addTask
      nonempty_ids_toggleCompletion nonempty_ids_editTask nonempty_ids_updateTask
      nonempty_ids_deleteTask nonempty_ids_fadeOutDone nonempty_ids_onPress)

lemma nonempty_ids_run: "nonempty_ids s \<Longrightarrow> nonempty_ids (run es s)"
proof (induction es arbitrary: s)
  case Nil
  then show ?case by (simp add: run_def)
next
  case (Cons e es)
  from Cons.IH [OF nonempty_ids_handle [OF Cons.prems, of e]] show ?case
    by (simp add: run_def)
qed

lemma target_nonempty:
  "s = run es (initial st) \<Longrightarrow> editingTask s = Some taskId \<Longrightarrow> taskId \<noteq> []"
  using nonempty_ids_run [OF nonempty_ids_initial, of es st]
  by (auto simp add: nonempty_ids_def)

subsection \<open>Committing an edit\<close>

lemma updateTask_accepts:
  assumes "trim (task s) \<noteq> []" and "editingTask s = Some taskId" and "taskId \<noteq> []"
  shows "updateTask s =
    s\<lparr>tasks := map (\<lambda>item. if id_f item = taskId then item\<lparr>text_f := task s\<rparr> else item)
         (tasks s),
      storage := (storage s)(js ''tasks'' \<mapsto> JSON_stringify
        (map (\<lambda>item. if id_f item = taskId then item\<lparr>text_f := task s\<rparr> else item)
           (tasks s))),
      task := [], editingTask := None\<rparr>"
  using assms by (simp add: updateTask_def Let_def saveTasks_def truthy_def)

lemma map_text_ids:
  "map id_f (map (\<lambda>item. if id_f item = taskId then item\<lparr>text_f := txt\<rparr> else item) ts) =
     map id_f ts"
  by (induction ts) auto

lemma map_text_completed:
  "map completed
     (map (\<lambda>item. if id_f item = taskId then item\<lparr>text_f := txt\<rparr> else item) ts) =
     map completed ts"
  by (induction ts) auto

text \<open>
  Claim C4. In every state that the handlers reach from the initial state, let the
  text in the input field be non-empty after trimming and let \<open>taskId\<close> be the edit
  target. Then \<open>updateTask\<close>, which is what a press on the button calls, puts the text
  into the Tasks whose id is \<open>taskId\<close> and leaves their \<open>id\<close> and \<open>completed\<close>, every
  other Task and the order as they were; it writes the new collection to the store,
  empties the input field and clears the edit target.
\<close>

theorem updateTask_replaces_text:
  assumes "s = run es (initial st)" and "editingTask s = Some taskId"
    and "trim (task s) \<noteq> []"
  shows "onPress now s = updateTask s \<and>
    tasks (updateTask s) =
      map (\<lambda>item. if id_f item = taskId then item\<lparr>text_f := task s\<rparr> else item) (tasks s) \<and>
    map id_f (tasks (updateTask s)) = map id_f (tasks s) \<and>
    map completed (tasks (updateTask s)) = map completed (tasks s) \<and>
    storage (updateTask s) (js ''tasks'') = Some (JSON_stringify (tasks (updateTask s))) \<and>
    task (updateTask s) = [] \<and> editingTask (updateTask s) = None \<and>
    animations (updateTask s) = animations s"
proof -
  from assms(1,2) have ne: "taskId \<noteq> []" by (rule target_nonempty)
  with assms(2) have "onPress now s = updateTask s"
    by (simp add: onPress_def truthy_def)
  then show ?thesis
    by (simp add: updateTask_accepts [OF assms(3,2) ne] map_text_ids map_text_completed
        del: map_map)
qed

lemma edit_example:
  "tasks (run [ChangeText (js ''milk''), PressButton 1, ToggleCompletion (js ''1''),
      ChangeText (js ''eggs''), PressButton 2, EditTask (js ''1''),
      ChangeText (js ''oat milk'')] (initial Map.empty)) =
     [\<lparr>id_f = js ''1'', text_f = js ''milk'', completed = True\<rparr>,
      \<lparr>id_f = js ''2'', text_f = js ''eggs'', completed = False\<rparr>]"
  "task (run [ChangeText (js ''milk''), PressButton 1, ToggleCompletion (js ''1''),
      ChangeText (js ''eggs''), PressButton 2, EditTask (js ''1''),
      ChangeText (js ''oat milk'')] (initial Map.empty)) = js ''oat milk''"
  "editingTask (run [ChangeText (js ''milk''), PressButton 1, ToggleCompletion (js ''1''),
      ChangeText (js ''eggs''), PressButton 2, EditTask (js ''1''),
      ChangeText (js ''oat milk'')] (initial Map.empty)) = Some (js ''1'')"
  by (simp_all add: run_def onPress_def addTask_def onChangeText_def toggleCompletion_def
      editTask_def initial_def Let_def saveTasks_def truthy_def trim_def is_space_def
      js_def toString_1_2 newValue_def)

theorem updateTask_replaces_text_witness:
  "editingTask (run [ChangeText (js ''milk''), PressButton 1, ToggleCompletion (js ''1''),
      ChangeText (js ''eggs''), PressButton 2, EditTask (js ''1''),
      ChangeText (js ''oat milk'')] (initial Map.empty)) = Some (js ''1'') \<and>
   trim (task (run [ChangeText (js ''milk''), PressButton 1, ToggleCompletion (js ''1''),
      ChangeText (js ''eggs''), PressButton 2, EditTask (js ''1''),
      ChangeText (js ''oat milk'')] (initial Map.empty))) \<noteq> [] \<and>
   tasks (onPress 3 (run [ChangeText (js ''milk''), PressButton 1, ToggleCompletion (js ''1''),
      ChangeText (js ''eggs''), PressButton 2, EditTask (js ''1''),
      ChangeText (js ''oat milk'')] (initial Map.empty))) =
     [\<lparr>id_f = js ''1'', text_f = js ''oat milk'', completed = True\<rparr>,
      \<lparr>id_f = js ''2'', text_f = js ''eggs'', completed = False\<rparr>]"
proof -
  let ?s = "run [ChangeText (js ''milk''), PressButton 1, ToggleCompletion (js ''1''),
      ChangeText (js ''eggs''), PressButton 2, EditTask (js ''1''),
      ChangeText (js ''oat milk'')] (initial Map.empty)"
  have a: "editingTask ?s = Some (js ''1'')"
    by (rule edit_example)
  have b: "trim (task ?s) \<noteq> []"
    by (simp only: edit_example) (simp add: trim_def js_def is_space_def)
  have f: "js ''2'' \<noteq> js ''1''"
    by (simp add: js_def)
  from updateTask_replaces_text [OF refl a b, of 3]
  have "tasks (onPress 3 ?s) =
      map (\<lambda>item. if id_f item = js ''1'' then item\<lparr>text_f := task ?s\<rparr> else item) (tasks ?s)"
    by simp
  then have "tasks (onPress 3 ?s) =
     [\<lparr>id_f = js ''1'', text_f = js ''oat milk'', completed = True\<rparr>,
      \<lparr>id_f = js ''2'', text_f = js ''eggs'', completed = False\<rparr>]"
    by (simp only: edit_example) (simp add: f)
  with a b show ?thesis by blast
qed




subsection \<open>Deleting\<close>

lemma tasks_fading_update: "tasks (s\<lparr>fading := fs\<rparr>) = tasks s"
  by simp

lemma deleteTask_press:
  assumes "animations s taskId \<noteq> None" and "fading s = []"
  shows "deleteTask taskId s = s\<lparr>fading := [(taskId, tasks s, True)]\<rparr>"
  using assms by (auto simp add: deleteTask_def Let_def)

lemma deleteTask_then_done:
  assumes "animations s taskId \<noteq> None" and "fading s = []"
  shows "fadeOutDone (deleteTask taskId s) =
    s\<lparr>tasks := filter (\<lambda>item. id_f item \<noteq> taskId) (tasks s),
      storage := (storage s)(js ''tasks'' \<mapsto>
        JSON_stringify (filter (\<lambda>item. id_f item \<noteq> taskId) (tasks s))),
      animations := (animations s)(taskId := None)\<rparr>"
  by (simp add: deleteTask_press [OF assms] fadeOutDone_def removeTask_def saveTasks_def
      Let_def assms(2))

lemma fadeOutDone_idle: "fading s = [] \<Longrightarrow> fadeOutDone s = s"
  by (simp add: fadeOutDone_def)

lemma deleteTask_no_handle: "animations s taskId = None \<Longrightarrow> deleteTask taskId s = s"
  by (simp add: deleteTask_def)

text \<open>
  Claim C2, amended. \<open>deleteTask\<close> acts only on an id that has an animation handle,
  and it removes nothing when it is called: with no other fade-out in progress it
  starts the fade-out and leaves the collection, the store and the animations as they
  are. The removal is the callback of the fade-out. When the fade-out completes before
  anything else happens, the Tasks whose id is \<open>taskId\<close> are removed, the others stay
  as they were and in order, the new collection is written to the store and the handle
  is dropped; a second delete of the same id then leaves the whole state as it is.
  For an id without a handle \<open>deleteTask\<close> does nothing: no Task is removed and
  nothing is written.
\<close>

theorem deleteTask_removes:
  "(animations s taskId \<noteq> None \<and> fading s = [] \<longrightarrow>
      deleteTask taskId s = s\<lparr>fading := [(taskId, tasks s, True)]\<rparr> \<and>
      tasks (fadeOutDone (deleteTask taskId s)) =
        filter (\<lambda>item. id_f item \<noteq> taskId) (tasks s) \<and>
      storage (fadeOutDone (deleteTask taskId s)) (js ''tasks'') =
        Some (JSON_stringify (tasks (fadeOutDone (deleteTask taskId s)))) \<and>
      animations (fadeOutDone (deleteTask taskId s)) = (animations s)(taskId := None) \<and>
      fadeOutDone (deleteTask taskId (fadeOutDone (deleteTask taskId s))) =
        fadeOutDone (deleteTask taskId s)) \<and>
   (animations s taskId = None \<longrightarrow> deleteTask taskId s = s)"
proof (intro conjI impI)
  assume h: "animations s taskId \<noteq> None \<and> fading s = []"
  then show "deleteTask taskId s = s\<lparr>fading := [(taskId, tasks s, True)]\<rparr>"
    by (simp add: deleteTask_press)
  from h have eq: "fadeOutDone (deleteTask taskId s) =
    s\<lparr>tasks := filter (\<lambda>item. id_f item \<noteq> taskId) (tasks s),
      storage := (storage s)(js ''tasks'' \<mapsto>
        JSON_stringify (filter (\<lambda>item. id_f item \<noteq> taskId) (tasks s))),
      animations := (animations s)(taskId := None)\<rparr>"
    by (simp add: deleteTask_then_done)
  show "tasks (fadeOutDone (deleteTask taskId s)) =
      filter (\<lambda>item. id_f item \<noteq> taskId) (tasks s)"
    by (simp add: eq)
  show "storage (fadeOutDone (deleteTask taskId s)) (js ''tasks'') =
      Some (JSON_stringify (tasks (fadeOutDone (deleteTask taskId s))))"
    by (simp add: eq)
  show "animations (fadeOutDone (deleteTask taskId s)) = (animations s)(taskId := None)"
    by (simp add: eq)
  have gone: "animations (fadeOutDone (deleteTask taskId s)) taskId = None"
    by (simp add: eq)
  have idle: "fading (fadeOutDone (deleteTask taskId s)) = []"
    using h by (simp add: eq)
  show "fadeOutDone (deleteTask taskId (fadeOutDone (deleteTask taskId s))) =
      fadeOutDone (deleteTask taskId s)"
    by (simp add: deleteTask_no_handle [OF gone] fadeOutDone_idle [OF idle])
next
  assume "animations s taskId = None"
  then show "deleteTask taskId s = s" by (rule deleteTask_no_handle)
qed

theorem deleteTask_removes_witness:
  "animations (addTask 2 (onChangeText (js ''b'') (addTask 1 (onChangeText (js ''a'')
      (initial Map.empty))))) (js ''1'') \<noteq> None \<and>
   fading (addTask 2 (onChangeText (js ''b'') (addTask 1 (onChangeText (js ''a'')
      (initial Map.empty))))) = [] \<and>
   tasks (deleteTask (js ''1'') (addTask 2 (onChangeText (js ''b'')
      (addTask 1 (onChangeText (js ''a'') (initial Map.empty)))))) =
     [\<lparr>id_f = js ''1'', text_f = js ''a'', completed = False\<rparr>,
      \<lparr>id_f = js ''2'', text_f = js ''b'', completed = False\<rparr>] \<and>
   tasks (fadeOutDone (deleteTask (js ''1'') (addTask 2 (onChangeText (js ''b'')
      (addTask 1 (onChangeText (js ''a'') (initial Map.empty))))))) =
     [\<lparr>id_f = js ''2'', text_f = js ''b'', completed = False\<rparr>]"
proof -
  let ?s = "addTask 2 (onChangeText (js ''b'') (addTask 1 (onChangeText (js ''a'')
      (initial Map.empty))))"
  have a: "animations ?s (js ''1'') \<noteq> None"
    by (simp add: addTask_def onChangeText_def initial_def Let_def saveTasks_def truthy_def
        trim_def is_space_def js_def toString_1_2 newValue_def)
  have b: "fading ?s = []"
    by (simp add: addTask_def onChangeText_def initial_def Let_def saveTasks_def truthy_def
        trim_def is_space_def js_def toString_1_2 newValue_def)
  have c: "tasks ?s = [\<lparr>id_f = js ''1'', text_f = js ''a'', completed = False\<rparr>,
      \<lparr>id_f = js ''2'', text_f = js ''b'', completed = False\<rparr>]"
    by (simp add: addTask_def onChangeText_def initial_def Let_def saveTasks_def truthy_def
        trim_def is_space_def js_def toString_1_2 newValue_def)
  have d: "js ''2'' \<noteq> js ''1''"
    by (simp add: js_def)
  from deleteTask_removes [of ?s "js ''1''"] a b
  have press: "deleteTask (js ''1'') ?s = ?s\<lparr>fading := [(js ''1'', tasks ?s, True)]\<rparr>"
    and removed: "tasks (fadeOutDone (deleteTask (js ''1'') ?s)) =
      filter (\<lambda>item. id_f item \<noteq> js ''1'') (tasks ?s)"
    by blast+
  have p: "tasks (deleteTask (js ''1'') ?s) =
      [\<lparr>id_f = js ''1'', text_f = js ''a'', completed = False\<rparr>,
       \<lparr>id_f = js ''2'', text_f = js ''b'', completed = False\<rparr>]"
    by (simp only: press tasks_fading_update c)
  from removed have q: "tasks (fadeOutDone (deleteTask (js ''1'') ?s)) =
      [\<lparr>id_f = js ''2'', text_f = js ''b'', completed = False\<rparr>]"
    by (simp only: c) (simp add: d)
  from a b p q show ?thesis by blast
qed

text \<open>
  The claim as it was stated has the removal immediate and unconditional. After one
  Task is added, the call of \<open>deleteTask\<close> leaves it in the collection. And in the state
  reached when two Tasks are added and deleted with overlapping fade-outs, the
  collection holds the Task with the id \<open>1\<close> and the animations hold no handle for it:
  deleting \<open>1\<close> there removes nothing, also after the time of a fade-out.
\<close>

theorem deleteTask_deferred_guarded_counterexample:
  "tasks (run [ChangeText (js ''a''), AddTask 1, DeleteTask (js ''1'')] (initial Map.empty)) =
     [\<lparr>id_f = js ''1'', text_f = js ''a'', completed = False\<rparr>] \<and>
   tasks (run [ChangeText (js ''a''), AddTask 1, ChangeText (js ''b''), AddTask 2,
      DeleteTask (js ''1''), DeleteTask (js ''2''), FadeOutDone, FadeOutDone,
      DeleteTask (js ''1''), FadeOutDone] (initial Map.empty)) =
     [\<lparr>id_f = js ''1'', text_f = js ''a'', completed = False\<rparr>]"
  by (simp add: run_def addTask_def onChangeText_def deleteTask_def fadeOutDone_def
      removeTask_def initial_def Let_def saveTasks_def truthy_def trim_def is_space_def
      js_def toString_1_2 newValue_def onValueOf_def)

text \<open>
  A second press on the delete button of a Task that is already fading stops the first
  fade-out, and the callback of the first runs at that moment: below, the Task with the
  id \<open>1\<close> is out of the collection right after the second press on it, while the
  fade-out of the Task with the id \<open>2\<close> is still in progress.
\<close>

lemma second_press_stops_first_fade:
  "tasks (run [ChangeText (js ''a''), AddTask 1, ChangeText (js ''b''), AddTask 2,
      ChangeText (js ''c''), AddTask 3, DeleteTask (js ''1''), DeleteTask (js ''2''),
      DeleteTask (js ''1'')] (initial Map.empty)) =
     [\<lparr>id_f = js ''2'', text_f = js ''b'', completed = False\<rparr>,
      \<lparr>id_f = js ''3'', text_f = js ''c'', completed = False\<rparr>]"
  "tasks (run [ChangeText (js ''a''), AddTask 1, ChangeText (js ''b''), AddTask 2,
      ChangeText (js ''c''), AddTask 3, DeleteTask (js ''1''), DeleteTask (js ''2''),
      DeleteTask (js ''1''), FadeOutDone, FadeOutDone] (initial Map.empty)) =
     [\<lparr>id_f = js ''2'', text_f = js ''b'', completed = False\<rparr>,
      \<lparr>id_f = js ''3'', text_f = js ''c'', completed = False\<rparr>]"
  by (simp_all add: run_def addTask_def onChangeText_def deleteTask_def fadeOutDone_def
      removeTask_def initial_def Let_def saveTasks_def truthy_def trim_def is_space_def
      js_def toString_1_2 newValue_def onValueOf_def)

subsection \<open>Animation handles\<close>

text \<open>
  Claim C9: in every reachable state every id of the collection has an animation
  handle. The code does not keep this up. Two Tasks are added, both are deleted before
  the first fade-out completes, and both fade-outs complete. The callback of the second fade-out filters the \<open>tasks\<close> of the render in
  which the delete button was pressed, which still hold the first Task: the first Task
  is back in the collection, and its handle is gone.
\<close>

theorem overlapping_fades_lose_handle:
  "tasks (run [ChangeText (js ''a''), AddTask 1, ChangeText (js ''b''), AddTask 2,
      DeleteTask (js ''1''), DeleteTask (js ''2''), FadeOutDone, FadeOutDone]
      (initial Map.empty)) = [\<lparr>id_f = js ''1'', text_f = js ''a'', completed = False\<rparr>] \<and>
   animations (run [ChangeText (js ''a''), AddTask 1, ChangeText (js ''b''), AddTask 2,
      DeleteTask (js ''1''), DeleteTask (js ''2''), FadeOutDone, FadeOutDone]
      (initial Map.empty)) (js ''1'') = None \<and>
   \<not> handles_ok (run [ChangeText (js ''a''), AddTask 1, ChangeText (js ''b''), AddTask 2,
      DeleteTask (js ''1''), DeleteTask (js ''2''), FadeOutDone, FadeOutDone]
      (initial Map.empty))"
proof -
  let ?s = "run [ChangeText (js ''a''), AddTask 1, ChangeText (js ''b''), AddTask 2,
      DeleteTask (js ''1''), DeleteTask (js ''2''), FadeOutDone, FadeOutDone]
      (initial Map.empty)"
  have t: "tasks ?s = [\<lparr>id_f = js ''1'', text_f = js ''a'', completed = False\<rparr>]"
    by (simp add: run_def addTask_def onChangeText_def deleteTask_def fadeOutDone_def
        removeTask_def initial_def Let_def saveTasks_def truthy_def trim_def is_space_def
        js_def toString_1_2 newValue_def onValueOf_def)
  have a: "animations ?s (js ''1'') = None"
    by (simp add: run_def addTask_def onChangeText_def deleteTask_def fadeOutDone_def
        removeTask_def initial_def Let_def saveTasks_def truthy_def trim_def is_space_def
        js_def toString_1_2 newValue_def onValueOf_def)
  from t a have "\<not> handles_ok ?s"
    by (simp add: handles_ok_def)
  with t a show ?thesis by blast
qed

subsection \<open>Animation handles without overlapping fade-outs\<close>

text \<open>
  When no fade-out overlaps with anything else, every id of the collection keeps its
  animation handle.
\<close>

lemma handles_ok_initial: "handles_ok (initial st)"
  by (simp add: handles_ok_def initial_def)

lemma handles_ok_onChangeText: "handles_ok s \<Longrightarrow> handles_ok (onChangeText txt s)"
  by (simp add: handles_ok_def onChangeText_def)

lemma handles_ok_addTask: "handles_ok s \<Longrightarrow> handles_ok (addTask now s)"
  by (auto simp add: handles_ok_def addTask_def Let_def saveTasks_def list_all_iff)

lemma handles_ok_toggleCompletion: "handles_ok s \<Longrightarrow> handles_ok (toggleCompletion taskId s)"
  by (auto simp add: handles_ok_def toggleCompletion_def Let_def saveTasks_def list_all_iff)

lemma handles_ok_editTask: "handles_ok s \<Longrightarrow> handles_ok (editTask taskId s)"
  by (simp add: handles_ok_def editTask_def split: option.split)

lemma handles_ok_updateTask: "handles_ok s \<Longrightarrow> handles_ok (updateTask s)"
  by (auto simp add: handles_ok_def updateTask_def Let_def saveTasks_def list_all_iff)

lemma handles_ok_delete_done:
  assumes "handles_ok s" and "fading s = []"
  shows "handles_ok (fadeOutDone (deleteTask taskId s))"
proof (cases "animations s taskId")
  case None
  with assms show ?thesis
    by (simp add: deleteTask_no_handle fadeOutDone_idle)
next
  case (Some fadeValue)
  then have "animations s taskId \<noteq> None" by simp
  from deleteTask_then_done [OF this assms(2)] assms(1) show ?thesis
    by (auto simp add: handles_ok_def list_all_iff)
qed

lemma fading_addTask: "fading s = [] \<Longrightarrow> fading (addTask now s) = []"
  by (simp add: addTask_def Let_def saveTasks_def newValue_def)

lemma fading_unchanged:
  "fading (onChangeText txt s) = fading s"
  "fading (toggleCompletion taskId s) = fading s"
  "fading (editTask taskId s) = fading s"
  "fading (updateTask s) = fading s"
  by (simp_all add: onChangeText_def addTask_def toggleCompletion_def editTask_def
      updateTask_def Let_def saveTasks_def split: option.split)

lemma fading_delete_done: "fading s = [] \<Longrightarrow> fading (fadeOutDone (deleteTask taskId s)) = []"
  by (cases "animations s taskId")
    (simp_all add: deleteTask_no_handle fadeOutDone_idle deleteTask_then_done)

lemma handles_ok_onPress: "handles_ok s \<Longrightarrow> handles_ok (onPress now s)"
  by (simp add: onPress_def handles_ok_addTask handles_ok_updateTask)

lemma fading_onPress: "fading s = [] \<Longrightarrow> fading (onPress now s) = []"
  by (simp add: onPress_def fading_addTask fading_unchanged)

lemma handles_ok_sequential:
  "sequential es \<Longrightarrow> handles_ok s \<Longrightarrow> fading s = [] \<Longrightarrow>
   handles_ok (run es s) \<and> fading (run es s) = []"
proof (induction es arbitrary: s rule: sequential.induct)
  case (2 taskId es)
  from "2.prems" have "handles_ok (fadeOutDone (deleteTask taskId s))"
    and "fading (fadeOutDone (deleteTask taskId s)) = []"
    by (simp_all add: handles_ok_delete_done fading_delete_done)
  with "2.prems"(1) "2.IH" [of "fadeOutDone (deleteTask taskId s)"] show ?case
    by (simp add: run_def)
qed (simp_all add: run_def handles_ok_onChangeText handles_ok_addTask
    handles_ok_toggleCompletion handles_ok_editTask handles_ok_updateTask handles_ok_onPress
    fading_unchanged fading_addTask fading_onPress)

lemma dom_after_load:
  "(foldl (\<lambda>newAnimations item. newAnimations(id_f item \<mapsto> v)) m ts) k \<noteq> None \<longleftrightarrow>
   k \<in> id_f ` set ts \<or> m k \<noteq> None"
  by (induction ts arbitrary: m) auto

lemma handles_after_load:
  "item \<in> set ts \<Longrightarrow>
   \<exists>y. foldl (\<lambda>newAnimations item. newAnimations(id_f item \<mapsto> v)) m ts (id_f item) = Some y"
  using dom_after_load [of v m ts "id_f item"] by auto

lemma handles_ok_loadTasks:
  "handles_ok s \<Longrightarrow> loadTasks s = Fulfilled s' \<Longrightarrow> handles_ok s'"
  by (auto simp add: loadTasks_def handles_ok_def list_all_iff handles_after_load
      split: option.splits if_splits)

subsection \<open>Reading back what JSON.stringify wrote\<close>

lemma nibbles_mask:
  "push_bit 12 (drop_bit 12 c AND mask 4) OR push_bit 8 (drop_bit 8 c AND mask 4) OR
   push_bit 4 (drop_bit 4 c AND mask 4) OR (c AND mask 4) = (c :: 16 word)"
proof (rule bit_word_eqI)
  fix n assume n: "n < LENGTH(16)"
  consider "n < 4" | "4 \<le> n" "n < 8" | "8 \<le> n" "n < 12" | "12 \<le> n" by linarith
  then show "bit (push_bit 12 (drop_bit 12 c AND mask 4) OR
      push_bit 8 (drop_bit 8 c AND mask 4) OR
      push_bit 4 (drop_bit 4 c AND mask 4) OR (c AND mask 4)) n = bit c n"
    using n by cases (auto simp add: bit_simps)
qed

lemma fifteen_mask: "(0xF :: 16 word) = mask 4"
  by (simp add: mask_eq_exp_minus_1)

lemma nibbles:
  "push_bit 12 (drop_bit 12 c AND 0xF) OR push_bit 8 (drop_bit 8 c AND 0xF) OR
   push_bit 4 (drop_bit 4 c AND 0xF) OR (c AND 0xF) = (c :: 16 word)"
  unfolding fifteen_mask by (rule nibbles_mask)

lemma nibble_less: "(x :: 16 word) AND 0xF < 16"
proof -
  have "x AND mask 4 < 2 ^ 4" by (rule and_mask_less') simp
  then show ?thesis unfolding fifteen_mask by simp
qed

lemma hexval_hexdigit: "d < 16 \<Longrightarrow> hexval (hexdigit d) = Some d"
  apply (simp add: hexval_def hexdigit_def)
  apply (auto simp: word_less_nat_alt word_le_nat_alt unat_word_ariths unat_sub)
  done

lemma hex4_unicodeEscape:
  "hex4 (hexdigit (drop_bit 12 c AND 0xF)) (hexdigit (drop_bit 8 c AND 0xF))
     (hexdigit (drop_bit 4 c AND 0xF)) (hexdigit (c AND 0xF)) = Some c"
proof -
  have h: "hexval (hexdigit (x AND 0xF)) = Some (x AND 0xF)" for x :: "16 word"
    by (rule hexval_hexdigit) (rule nibble_less)
  show ?thesis
    unfolding hex4_def h by (simp only: prod.case option.case nibbles)
qed

lemma parseChars_unicodeEscape:
  "parseChars (unicodeEscape c @ r) = cons_result c (parseChars r)"
  by (simp add: unicodeEscape_def hex4_unicodeEscape)

lemma parseChars_plain:
  "c \<noteq> 0x22 \<Longrightarrow> c \<noteq> 0x5C \<Longrightarrow> \<not> c < 0x20 \<Longrightarrow>
   parseChars (c # r) = cons_result c (parseChars r)"
  by simp

lemma parseChars_quoteUnit:
  "parseChars (quoteUnit c @ r) = cons_result c (parseChars r)"
proof -
  consider "c = 0x08" | "c = 0x09" | "c = 0x0A" | "c = 0x0C" | "c = 0x0D" | "c = 0x22"
    | "c = 0x5C"
    | "c \<noteq> 0x08" "c \<noteq> 0x09" "c \<noteq> 0x0A" "c \<noteq> 0x0C" "c \<noteq> 0x0D" "c \<noteq> 0x22" "c \<noteq> 0x5C"
      "c < 0x20 \<or> is_lead c \<or> is_trail c"
    | "c \<noteq> 0x08" "c \<noteq> 0x09" "c \<noteq> 0x0A" "c \<noteq> 0x0C" "c \<noteq> 0x0D" "c \<noteq> 0x22" "c \<noteq> 0x5C"
      "\<not> (c < 0x20 \<or> is_lead c \<or> is_trail c)"
    by blast
  then show ?thesis
  proof cases
    case 8
    then show ?thesis by (simp add: quoteUnit_def parseChars_unicodeEscape)
  next
    case 9
    then show ?thesis by (simp add: quoteUnit_def)
  qed (simp_all add: quoteUnit_def unescape_def)
qed

lemma surrogate_plain:
  "is_lead c \<or> is_trail c \<Longrightarrow> c \<noteq> 0x22 \<and> c \<noteq> 0x5C \<and> \<not> c < 0x20"
  by (auto simp add: is_lead_def is_trail_def word_le_nat_alt word_less_nat_alt)

lemma parseChars_quoteChars:
  "parseChars (quoteChars s @ 0x22 # rest) = Some (s, rest)"
proof (induction s rule: quoteChars.induct)
  case 1
  show ?case by simp
next
  case (2 c)
  show ?case by (simp add: parseChars_quoteUnit cons_result_def)
next
  case (3 c d cs)
  show ?case
  proof (cases "is_lead c \<and> is_trail d")
    case True
    then have c: "c \<noteq> 0x22" "c \<noteq> 0x5C" "\<not> c < 0x20"
      and d: "d \<noteq> 0x22" "d \<noteq> 0x5C" "\<not> d < 0x20"
      using surrogate_plain [of c] surrogate_plain [of d] by blast+
    have "parseChars (c # d # quoteChars cs @ 0x22 # rest) =
        cons_result c (cons_result d (parseChars (quoteChars cs @ 0x22 # rest)))"
      by (simp only: parseChars_plain [OF c] parseChars_plain [OF d])
    moreover from "3.IH"(1) [OF True]
    have "parseChars (quoteChars cs @ 0x22 # rest) = Some (cs, rest)" .
    moreover from True have "quoteChars (c # d # cs) = c # d # quoteChars cs"
      by simp
    ultimately show ?thesis by (simp only: append_Cons) (simp add: cons_result_def)
  next
    case False
    from "3.IH"(2) [OF False]
    have ih: "parseChars (quoteChars (d # cs) @ 0x22 # rest) = Some (d # cs, rest)" .
    from False have "quoteChars (c # d # cs) = quoteUnit c @ quoteChars (d # cs)"
      by auto
    then show ?thesis
      by (simp only: append_assoc parseChars_quoteUnit ih) (simp add: cons_result_def)
  qed
qed

lemma skip_ws_nonspace: "\<not> is_ws c \<Longrightarrow> skip_ws (c # cs) = c # cs"
  by (simp add: skip_ws_def)

lemma punctuation_not_ws:
  "\<not> is_ws 0x22" "\<not> is_ws 0x2C" "\<not> is_ws 0x3A" "\<not> is_ws 0x5B" "\<not> is_ws 0x5D"
  "\<not> is_ws 0x7B" "\<not> is_ws 0x7D" "\<not> is_ws 0x74" "\<not> is_ws 0x66"
  by (simp_all add: is_ws_def)

lemmas skip_ws_punctuation = punctuation_not_ws [THEN skip_ws_nonspace]

lemma parseValue_string:
  "parseValue (Suc n) (quoteJSONString s @ rest) = Some (JString s, rest)"
  by (simp add: quoteJSONString_def skip_ws_punctuation parseChars_quoteChars
      del: parseChars.simps)

lemma parseValue_bool:
  "parseValue (Suc n) ((if b then js ''true'' else js ''false'') @ rest) = Some (JBool b, rest)"
  by (simp add: js_def skip_ws_punctuation parseLiteral_def)

lemma parseMembers_comma:
  assumes "parseValue n (val @ 0x2C # rest) = Some (v, 0x2C # rest)"
  shows "parseMembers (Suc n) (quoteJSONString k @ 0x3A # val @ 0x2C # rest) =
    cons_result (k, v) (parseMembers n rest)"
  using assms
  by (simp add: quoteJSONString_def skip_ws_punctuation parseChars_quoteChars
      del: parseChars.simps)

lemma parseMembers_brace:
  assumes "parseValue n (val @ 0x7D # rest) = Some (v, 0x7D # rest)"
  shows "parseMembers (Suc n) (quoteJSONString k @ 0x3A # val @ 0x7D # rest) =
    Some ([(k, v)], rest)"
  using assms
  by (simp add: quoteJSONString_def skip_ws_punctuation parseChars_quoteChars
      del: parseChars.simps)

lemma stringifyTask_unfold:
  "stringifyTask t @ rest =
     0x7B # quoteJSONString (js ''id'') @ 0x3A # quoteJSONString (id_f t) @ 0x2C #
       (quoteJSONString (js ''text'') @ 0x3A # quoteJSONString (text_f t) @ 0x2C #
         (quoteJSONString (js ''completed'') @ 0x3A #
           (if completed t then js ''true'' else js ''false'') @ 0x7D # rest))"
  by (simp add: stringifyTask_def js_def)

lemma parseMembers_task:
  "parseMembers (Suc (Suc (Suc (Suc n))))
     (quoteJSONString (js ''id'') @ 0x3A # quoteJSONString (id_f t) @ 0x2C #
       (quoteJSONString (js ''text'') @ 0x3A # quoteJSONString (text_f t) @ 0x2C #
         (quoteJSONString (js ''completed'') @ 0x3A #
           (if completed t then js ''true'' else js ''false'') @ 0x7D # rest))) =
   Some ([(js ''id'', JString (id_f t)), (js ''text'', JString (text_f t)),
          (js ''completed'', JBool (completed t))], rest)"
  by (simp only: parseMembers_comma [OF parseValue_string]
      parseMembers_brace [OF parseValue_bool]) (simp add: cons_result_def)

lemma parseValue_task_Suc:
  "parseValue (Suc (Suc (Suc (Suc (Suc n))))) (stringifyTask t @ rest) = Some (toJSON t, rest)"
proof -
  have q: "skip_ws (quoteJSONString (js ''id'') @ r) = 0x22 # quoteChars (js ''id'') @ 0x22 # r"
    for r
    by (simp add: quoteJSONString_def skip_ws_punctuation)
  have "parseValue (Suc (Suc (Suc (Suc (Suc n))))) (0x7B # quoteJSONString (js ''id'') @ r) =
      (case parseMembers (Suc (Suc (Suc (Suc n)))) (quoteJSONString (js ''id'') @ r) of
         None \<Rightarrow> None | Some (ms, rest) \<Rightarrow> Some (JObject ms, rest))" for r
    by (simp add: skip_ws_punctuation q del: parseMembers.simps)
  then show ?thesis
    unfolding stringifyTask_unfold
    by (simp only: parseMembers_task) (simp add: toJSON_def)
qed

lemma parseValue_task:
  assumes "5 \<le> m"
  shows "parseValue m (stringifyTask t @ rest) = Some (toJSON t, rest)"
proof -
  from assms obtain n where "m = 5 + n"
    using le_Suc_ex by blast
  then have "m = Suc (Suc (Suc (Suc (Suc n))))"
    by simp
  then show ?thesis by (simp only: parseValue_task_Suc)
qed

lemma stringifyTask_length: "5 \<le> length (stringifyTask t)"
  by (simp add: stringifyTask_def js_def)

lemma stringifyElems_length: "ts \<noteq> [] \<Longrightarrow> length ts + 4 \<le> length (stringifyElems ts)"
proof (induction ts rule: stringifyElems.induct)
  case 1
  then show ?case by simp
next
  case (2 t)
  show ?case using stringifyTask_length [of t] by simp
next
  case (3 t u ts)
  then show ?case using stringifyTask_length [of t] by simp
qed

lemma stringifyElems_head:
  "ts \<noteq> [] \<Longrightarrow> \<exists>r. stringifyElems ts @ rest = 0x7B # 0x22 # r"
proof (cases ts rule: stringifyElems.cases)
  case 1
  assume "ts \<noteq> []"
  with 1 show ?thesis by simp
next
  case (2 t)
  then show ?thesis by (simp add: stringifyTask_def js_def quoteJSONString_def)
next
  case (3 t u ts')
  then show ?thesis by (simp add: stringifyTask_def js_def quoteJSONString_def)
qed

lemma parseElems_tasks:
  "ts \<noteq> [] \<Longrightarrow> length ts + 5 \<le> f \<Longrightarrow>
   parseElems f (stringifyElems ts @ 0x5D # rest) = Some (map toJSON ts, rest)"
proof (induction ts arbitrary: f rule: stringifyElems.induct)
  case 1
  then show ?case by simp
next
  case (2 t)
  then obtain n where f: "f = Suc n" and n: "5 \<le> n"
    by (cases f) simp_all
  show ?case
    unfolding f by (simp add: parseValue_task [OF n] skip_ws_punctuation)
next
  case (3 t u ts)
  then obtain n where f: "f = Suc n" and n: "5 \<le> n" and n': "length (u # ts) + 5 \<le> n"
    by (cases f) simp_all
  have ih: "parseElems n (stringifyElems (u # ts) @ 0x5D # rest) =
      Some (map toJSON (u # ts), rest)"
    using n' by (intro "3.IH") simp_all
  have "parseElems (Suc n) (stringifyTask t @ 0x2C # stringifyElems (u # ts) @ 0x5D # rest) =
      cons_result (toJSON t) (parseElems n (stringifyElems (u # ts) @ 0x5D # rest))"
    by (simp add: parseValue_task [OF n] skip_ws_punctuation)
  then show ?case
    unfolding f by (simp add: ih cons_result_def js_def)
qed

lemma JSON_parse_stringify: "JSON_parse (JSON_stringify ts) = Some (JArray (map toJSON ts))"
proof (cases "ts = []")
  case True
  have "parseValue (Suc n) [0x5B, 0x5D] = Some (JArray [], [])" for n
    by (simp add: skip_ws_punctuation)
  then have "parseValue (2 * length [0x5B, 0x5D :: jschar] + 1) [0x5B, 0x5D] =
      Some (JArray [], [])"
    by (simp only: Suc_eq_plus1 [symmetric])
  moreover from True have "JSON_stringify ts = [0x5B, 0x5D]"
    by (simp add: JSON_stringify_def js_def)
  ultimately show ?thesis
    using True by (simp only: JSON_parse_def) (simp add: skip_ws_def)
next
  case False
  from stringifyElems_head [OF False]
  obtain r where r: "stringifyElems ts @ [0x5D] = 0x7B # 0x22 # r" by blast
  from stringifyElems_length [OF False]
  have fuel: "length ts + 5 \<le> 2 * length (JSON_stringify ts)"
    by (simp add: JSON_stringify_def js_def)
  have "parseValue (Suc (2 * length (JSON_stringify ts))) (0x5B # stringifyElems ts @ [0x5D]) =
      (case parseElems (2 * length (JSON_stringify ts)) (stringifyElems ts @ [0x5D]) of
         None \<Rightarrow> None | Some (vs, rest) \<Rightarrow> Some (JArray vs, rest))"
    unfolding parseValue.simps(2) skip_ws_punctuation list.case
    by (simp add: r skip_ws_punctuation)
  then show ?thesis
    by (simp add: JSON_parse_def parseElems_tasks [OF False fuel] skip_ws_def)
      (simp add: JSON_stringify_def js_def parseElems_tasks [OF False fuel] skip_ws_def)
qed

lemma asTask_toJSON: "asTask (toJSON t) = Some t"
  by (simp add: toJSON_def)

lemma asTaskList_toJSON: "asTaskList (map toJSON ts) = Some ts"
  by (induction ts) (simp_all add: asTask_toJSON)

lemma JSON_stringify_truthy: "truthy (JSON_stringify ts)"
  by (simp add: truthy_def JSON_stringify_def js_def)

subsection \<open>The bound on nested calls is never reached\<close>

lemma skip_ws_length: "length (skip_ws cs) \<le> length cs"
  by (simp add: skip_ws_def length_dropWhile_le)

lemma skip_ws_Cons_length: "skip_ws cs = c # r \<Longrightarrow> length r < length cs"
  using skip_ws_length [of cs] by simp

lemma cons_result_Some:
  "cons_result x r = Some (ys, rest) \<Longrightarrow> \<exists>xs. r = Some (xs, rest) \<and> ys = x # xs"
  by (auto simp add: cons_result_def split: option.splits)

lemma parseChars_length: "parseChars cs = Some (s, r) \<Longrightarrow> length r < length cs"
proof (induction cs arbitrary: s r rule: parseChars.induct)
  case 1
  then show ?case by simp
next
  case (2 c cs)
  show ?case
  proof (cases "c = 0x22")
    case True
    with "2.prems" show ?thesis by simp
  next
    case quote: False
    show ?thesis
    proof (cases "c = 0x5C")
      case False
      with quote "2.prems" obtain s' where "parseChars cs = Some (s', r)"
        by (auto split: if_splits dest: cons_result_Some)
      with "2.IH"(3) [OF quote False] "2.prems" quote False show ?thesis
        by (fastforce split: if_splits)
    next
      case True
      with quote "2.prems" obtain e r0 where cs: "cs = e # r0"
        by (cases cs) auto
      show ?thesis
      proof (cases "e = 0x75")
        case u: True
        with True quote cs "2.prems" obtain h3 h2 h1 h0 r' u' s'
          where r0: "r0 = h3 # h2 # h1 # h0 # r'" and "hex4 h3 h2 h1 h0 = Some u'"
            and "parseChars r' = Some (s', r)"
          by (auto split: list.splits option.splits dest: cons_result_Some)
        with "2.IH"(1) [OF quote True cs u r0] show ?thesis
          using cs by fastforce
      next
        case nu: False
        with True quote cs "2.prems" obtain u' s'
          where un: "unescape e = Some u'" and "parseChars r0 = Some (s', r)"
          by (auto split: option.splits dest: cons_result_Some)
        with "2.IH"(2) [OF quote True cs nu un] show ?thesis
          using cs by fastforce
      qed
    qed
  qed
qed

lemma parseDigits_length: "parseDigits cs = Some (ds, r) \<Longrightarrow> length r < length cs"
proof -
  assume a: "parseDigits cs = Some (ds, r)"
  then have ne: "takeWhile is_digit cs \<noteq> []" and r: "r = dropWhile is_digit cs"
    by (auto simp add: parseDigits_def split: if_splits)
  have "length (takeWhile is_digit cs) + length (dropWhile is_digit cs) = length cs"
    by (metis length_append takeWhile_dropWhile_id)
  with ne r show ?thesis by (cases "takeWhile is_digit cs") auto
qed

lemma parseInt_length: "parseInt cs = Some (ds, r) \<Longrightarrow> length r < length cs"
  by (auto simp add: parseInt_def split: list.splits if_splits dest: parseDigits_length)

lemma parseFraction_length: "parseFraction cs = Some (ds, r) \<Longrightarrow> length r \<le> length cs"
  by (auto simp add: parseFraction_def split: list.splits if_splits option.splits
      dest: parseDigits_length)

lemma parseExponent_length: "parseExponent cs = Some (ds, r) \<Longrightarrow> length r \<le> length cs"
  by (auto simp add: parseExponent_def split: list.splits if_splits option.splits
      dest: parseDigits_length)

lemma parseNumber_length: "parseNumber cs = Some (num, r) \<Longrightarrow> length r < length cs"
proof -
  assume a: "parseNumber cs = Some (num, r)"
  define r0 where "r0 = snd (case cs of [] \<Rightarrow> ([], cs)
    | c # r \<Rightarrow> if c = 0x2D then ([c], r) else ([], cs))"
  have r0: "length r0 \<le> length cs"
    by (simp add: r0_def split: list.split)
  from a obtain i r1 f r2 e where "parseInt r0 = Some (i, r1)"
    and "parseFraction r1 = Some (f, r2)" and "parseExponent r2 = Some (e, r)"
    by (auto simp add: parseNumber_def r0_def split: list.splits if_splits option.splits prod.splits)
  with parseInt_length [of r0 i r1] parseFraction_length [of r1 f r2]
    parseExponent_length [of r2 e r] r0
  show ?thesis by simp
qed

lemma parseLiteral_length:
  "parseLiteral w v cs = Some (x, r) \<Longrightarrow> w \<noteq> [] \<Longrightarrow> length r < length cs"
proof -
  assume a: "parseLiteral w v cs = Some (x, r)" and w: "w \<noteq> []"
  then have t: "take (length w) cs = js w" and r: "r = drop (length w) cs"
    by (auto simp add: parseLiteral_def split: if_splits)
  from t have "length (take (length w) cs) = length w"
    by (simp add: js_def)
  then have "length w \<le> length cs" by simp
  with w r show ?thesis by (cases w) auto
qed

lemma parseValue_Suc_cases:
  assumes "parseValue (Suc n) cs = Some (v, r)"
  obtains (obj_empty) r0 where "skip_ws cs = 0x7B # r0" and "skip_ws r0 = 0x7D # r"
  | (obj) r0 ms where "skip_ws cs = 0x7B # r0" and "parseMembers n r0 = Some (ms, r)"
  | (arr_empty) r0 where "skip_ws cs = 0x5B # r0" and "skip_ws r0 = 0x5D # r"
  | (arr) r0 vs where "skip_ws cs = 0x5B # r0" and "parseElems n r0 = Some (vs, r)"
  | (str) r0 s where "skip_ws cs = 0x22 # r0" and "parseChars r0 = Some (s, r)"
  | (lit) c r0 w x where "skip_ws cs = c # r0" and "parseLiteral w x (c # r0) = Some (v, r)"
      and "w \<noteq> []"
  | (num) c r0 num where "skip_ws cs = c # r0" and "parseNumber (c # r0) = Some (num, r)"
proof -
  from assms obtain c r0 where s: "skip_ws cs = c # r0"
    by (cases "skip_ws cs") auto
  consider "c = 0x7B" | "c = 0x5B" | "c = 0x22" | "c = 0x74" | "c = 0x66" | "c = 0x6E"
    | "c \<noteq> 0x7B" "c \<noteq> 0x5B" "c \<noteq> 0x22" "c \<noteq> 0x74" "c \<noteq> 0x66" "c \<noteq> 0x6E"
    by blast
  then show thesis
  proof cases
    case 1
    with assms s obj_empty obj show ?thesis
      by (auto split: list.splits if_splits option.splits)
  next
    case 2
    with assms s arr_empty arr show ?thesis
      by (auto split: list.splits if_splits option.splits)
  next
    case 3
    with assms s str show ?thesis
      by (auto split: option.splits)
  next
    case 4
    with assms s lit [of c r0 "''true''" "JBool True"] show ?thesis
      by simp
  next
    case 5
    with assms s lit [of c r0 "''false''" "JBool False"] show ?thesis
      by simp
  next
    case 6
    with assms s lit [of c r0 "''null''" JNull] show ?thesis
      by simp
  next
    case 7
    with assms s num [of c r0] show ?thesis
      by (auto split: if_splits option.splits)
  qed
qed

lemma parse_lengths:
  "(\<forall>cs v r. parseValue n cs = Some (v, r) \<longrightarrow> length r < length cs) \<and>
   (\<forall>cs vs r. parseElems n cs = Some (vs, r) \<longrightarrow> length r < length cs) \<and>
   (\<forall>cs ms r. parseMembers n cs = Some (ms, r) \<longrightarrow> length r < length cs)"
proof (induction n)
  case 0
  show ?case by simp
next
  case (Suc n)
  have val: "length r < length cs" if "parseValue (Suc n) cs = Some (v, r)" for cs v r
    using that
  proof (cases rule: parseValue_Suc_cases)
    case (obj_empty r0)
    with skip_ws_Cons_length [of cs _ r0] skip_ws_Cons_length [of r0 _ r] show ?thesis
      by simp
  next
    case (obj r0 ms)
    with skip_ws_Cons_length [of cs _ r0] Suc.IH show ?thesis
      by (meson less_trans)
  next
    case (arr_empty r0)
    with skip_ws_Cons_length [of cs _ r0] skip_ws_Cons_length [of r0 _ r] show ?thesis
      by simp
  next
    case (arr r0 vs)
    with skip_ws_Cons_length [of cs _ r0] Suc.IH show ?thesis
      by (meson less_trans)
  next
    case (str r0 s)
    with skip_ws_Cons_length [of cs _ r0] parseChars_length [of r0 s r] show ?thesis
      by simp
  next
    case (lit c r0 w x)
    with skip_ws_length [of cs] parseLiteral_length [of w x "c # r0" v r] show ?thesis
      by simp
  next
    case (num c r0 num)
    with skip_ws_length [of cs] parseNumber_length [of "c # r0" num r] show ?thesis
      by simp
  qed
  have elems: "length r < length cs" if "parseElems (Suc n) cs = Some (vs, r)" for cs vs r
  proof -
    from that obtain v r0 c r1 where v: "parseValue n cs = Some (v, r0)"
      and s: "skip_ws r0 = c # r1"
      by (auto split: option.splits list.splits)
    from Suc.IH v have "length r0 < length cs" by blast
    moreover from skip_ws_Cons_length [OF s] have "length r1 < length r0" .
    moreover have "length r \<le> length r1"
      using that v s Suc.IH
      by (auto split: if_splits dest!: cons_result_Some) (meson less_imp_le_nat)
    ultimately show ?thesis by simp
  qed
  have members: "length r < length cs" if "parseMembers (Suc n) cs = Some (ms, r)" for cs ms r
  proof -
    from that obtain q r0 where s0: "skip_ws cs = q # r0" and q: "q = 0x22"
      by (cases "skip_ws cs") (auto split: if_splits)
    from that s0 q obtain key r1 where k: "parseChars r0 = Some (key, r1)"
      by (auto split: option.splits)
    from that s0 q k obtain colon r2 where s1: "skip_ws r1 = colon # r2" and c: "colon = 0x3A"
      by (cases "skip_ws r1") (auto split: if_splits)
    from that s0 q k s1 c obtain v r3 where v: "parseValue n r2 = Some (v, r3)"
      by (auto split: option.splits)
    from that s0 q k s1 c v obtain c' r4 where s2: "skip_ws r3 = c' # r4"
      by (cases "skip_ws r3") auto
    have "length r \<le> length r4"
      using that s0 q k s1 c v s2 Suc.IH
      by (auto split: if_splits dest!: cons_result_Some) (meson less_imp_le_nat)
    moreover from Suc.IH v have "length r3 < length r2" by blast
    ultimately show ?thesis
      using skip_ws_Cons_length [OF s0] parseChars_length [OF k] skip_ws_Cons_length [OF s1]
        skip_ws_Cons_length [OF s2]
      by simp
  qed
  from val elems members show ?case by blast
qed

lemma parseValue_length: "parseValue n cs = Some (v, r) \<Longrightarrow> length r < length cs"
  using parse_lengths [of n] by blast

text \<open>
  More nested calls than twice the length of the text change nothing: the start value
  of \<open>JSON_parse\<close> is never used up, and \<open>None\<close> is a syntax error of the text.
\<close>

lemma fuel_enough:
  "(\<forall>cs m. 2 * length cs \<le> n \<longrightarrow> n \<le> m \<longrightarrow> parseValue m cs = parseValue n cs) \<and>
   (\<forall>cs m. 2 * length cs + 1 \<le> n \<longrightarrow> n \<le> m \<longrightarrow> parseElems m cs = parseElems n cs) \<and>
   (\<forall>cs m. 2 * length cs + 1 \<le> n \<longrightarrow> n \<le> m \<longrightarrow> parseMembers m cs = parseMembers n cs)"
proof (induction n)
  case 0
  have "parseValue m [] = None" for m
    by (cases m) (simp_all add: skip_ws_def)
  then show ?case by simp
next
  case (Suc n)
  have val: "parseValue m cs = parseValue (Suc n) cs"
    if b: "2 * length cs \<le> Suc n" and m: "Suc n \<le> m" for cs m
  proof -
    from m obtain m' where m': "m = Suc m'" and le: "n \<le> m'"
      by (cases m) simp_all
    show ?thesis
    proof (cases "skip_ws cs")
      case Nil
      then show ?thesis by (simp add: m')
    next
      case (Cons c r0)
      from skip_ws_Cons_length [OF Cons] b have "2 * length r0 + 1 \<le> n" by simp
      with Suc.IH le have "parseElems m' r0 = parseElems n r0"
        and "parseMembers m' r0 = parseMembers n r0"
        by blast+
      with Cons show ?thesis by (simp add: m' split: list.split)
    qed
  qed
  have elems: "parseElems m cs = parseElems (Suc n) cs"
    if b: "2 * length cs + 1 \<le> Suc n" and m: "Suc n \<le> m" for cs m
  proof -
    from m obtain m' where m': "m = Suc m'" and le: "n \<le> m'"
      by (cases m) simp_all
    from b have "2 * length cs \<le> n" by simp
    with Suc.IH le have v: "parseValue m' cs = parseValue n cs" by blast
    show ?thesis
    proof (cases "parseValue n cs")
      case None
      with v show ?thesis by (simp add: m')
    next
      case (Some p)
      obtain x r0 where p: "p = (x, r0)" by (cases p)
      from Some p parseValue_length have l0: "length r0 < length cs" by blast
      show ?thesis
      proof (cases "skip_ws r0")
        case Nil
        with v Some p show ?thesis by (simp add: m')
      next
        case (Cons c r1)
        from skip_ws_Cons_length [OF Cons] l0 b have "2 * length r1 + 1 \<le> n" by simp
        with Suc.IH le have "parseElems m' r1 = parseElems n r1" by blast
        with v Some p Cons show ?thesis by (simp add: m')
      qed
    qed
  qed
  have members: "parseMembers m cs = parseMembers (Suc n) cs"
    if b: "2 * length cs + 1 \<le> Suc n" and m: "Suc n \<le> m" for cs m
  proof -
    from m obtain m' where m': "m = Suc m'" and le: "n \<le> m'"
      by (cases m) simp_all
    show ?thesis
    proof (cases "skip_ws cs")
      case Nil
      then show ?thesis by (simp add: m')
    next
      case s0: (Cons q r0)
      note l0 = skip_ws_Cons_length [OF s0]
      show ?thesis
      proof (cases "parseChars r0")
        case None
        with s0 show ?thesis by (simp add: m')
      next
        case (Some p)
        obtain key r1 where p: "p = (key, r1)" by (cases p)
        from Some p have k: "parseChars r0 = Some (key, r1)" by simp
        note l1 = parseChars_length [OF k]
        show ?thesis
        proof (cases "skip_ws r1")
          case Nil
          with s0 k show ?thesis by (simp add: m')
        next
          case s1: (Cons colon r2)
          note l2 = skip_ws_Cons_length [OF s1]
          from l0 l1 l2 b have "2 * length r2 \<le> n" by simp
          with Suc.IH le have v: "parseValue m' r2 = parseValue n r2" by blast
          show ?thesis
          proof (cases "parseValue n r2")
            case None
            with s0 k s1 v show ?thesis by (simp add: m')
          next
            case sv: (Some pv)
            obtain x r3 where pv: "pv = (x, r3)" by (cases pv)
            from sv pv parseValue_length have l3: "length r3 < length r2" by blast
            show ?thesis
            proof (cases "skip_ws r3")
              case Nil
              with s0 k s1 v sv pv show ?thesis by (simp add: m')
            next
              case s2: (Cons c r4)
              from skip_ws_Cons_length [OF s2] l0 l1 l2 l3 b have "2 * length r4 + 1 \<le> n"
                by simp
              with Suc.IH le have "parseMembers m' r4 = parseMembers n r4" by blast
              with s0 k s1 v sv pv s2 show ?thesis by (simp add: m')
            qed
          qed
        qed
      qed
    qed
  qed
  from val elems members show ?case by blast
qed

lemma JSON_parse_fuel:
  assumes "2 * length s + 1 \<le> m"
  shows "(case parseValue m s of
            None \<Rightarrow> None
          | Some (v, rest) \<Rightarrow> if skip_ws rest = [] then Some v else None) = JSON_parse s"
proof -
  from fuel_enough [of "2 * length s + 1"] assms
  have "parseValue m s = parseValue (2 * length s + 1) s"
    by simp
  then show ?thesis by (simp add: JSON_parse_def)
qed

subsection \<open>Loading\<close>

text \<open>
  Claim C7. After \<open>saveTasks\<close> has written a collection, \<open>loadTasks\<close> is fulfilled and
  sets \<open>tasks\<close> to that collection: the same Tasks in the same order, each with the same
  \<open>id\<close>, \<open>text\<close> and \<open>completed\<close>. It also gives every id an animation handle.
\<close>

theorem load_after_save:
  "loadTasks (saveTasks ts s) =
     Fulfilled ((saveTasks ts s)\<lparr>tasks := ts,
       animations := foldl (\<lambda>newAnimations item. newAnimations(id_f item \<mapsto> 1)) Map.empty ts\<rparr>)"
  by (simp add: loadTasks_def saveTasks_simps JSON_stringify_truthy JSON_parse_stringify
      asTaskList_toJSON)

theorem load_after_save_witness:
  "loadTasks (saveTasks [\<lparr>id_f = js ''1'', text_f = [0x22, 0x0A, 0xD800], completed = True\<rparr>]
      (initial Map.empty)) =
   Fulfilled ((saveTasks [\<lparr>id_f = js ''1'', text_f = [0x22, 0x0A, 0xD800], completed = True\<rparr>]
      (initial Map.empty))
     \<lparr>tasks := [\<lparr>id_f = js ''1'', text_f = [0x22, 0x0A, 0xD800], completed = True\<rparr>],
      animations := [js ''1'' \<mapsto> 1]\<rparr>)"
  using load_after_save [of "[\<lparr>id_f = js ''1'', text_f = [0x22, 0x0A, 0xD800], completed = True\<rparr>]"
      "initial Map.empty"]
  by simp

text \<open>
  Claim C8, amended. With nothing stored under the key, or with the empty string
  stored (which the test of line 19 takes for nothing), \<open>loadTasks\<close> is fulfilled and
  leaves the state as it is, so the collection of the initial state stays empty. With
  a non-empty stored text that \<open>JSON.parse\<close> does not accept, \<open>loadTasks\<close> is
  rejected with the \<open>SyntaxError\<close> and the state is as it was before. With a stored
  text that \<open>JSON.parse\<close> accepts, the parsed value becomes the collection without a
  check: a Task array is restored together with its animation handles, and any other
  value is taken by \<open>setTasks\<close> as well, after which the load throws a \<open>TypeError\<close>
  when the value is no array or an array with \<open>null\<close> in it, and is fulfilled
  otherwise.
\<close>

theorem load_outcomes:
  "(storage s (js ''tasks'') = None \<or> storage s (js ''tasks'') = Some [] \<longrightarrow>
      loadTasks s = Fulfilled s) \<and>
   (storage s (js ''tasks'') = Some payload \<and> payload \<noteq> [] \<and> JSON_parse payload = None \<longrightarrow>
      loadTasks s = Rejected SyntaxError s) \<and>
   (storage s (js ''tasks'') = Some payload \<and> payload \<noteq> [] \<and>
    JSON_parse payload = Some v \<and> asTasks v = Some ts \<longrightarrow>
      loadTasks s = Fulfilled (s\<lparr>tasks := ts,
        animations := foldl (\<lambda>newAnimations item. newAnimations(id_f item \<mapsto> 1))
          Map.empty ts\<rparr>)) \<and>
   (storage s (js ''tasks'') = Some payload \<and> payload \<noteq> [] \<and>
    JSON_parse payload = Some v \<and> asTasks v = None \<longrightarrow>
      loadTasks s = Untyped v (forEachError v) \<and>
      (forEachError v = None \<longleftrightarrow> (\<exists>vs. v = JArray vs \<and> JNull \<notin> set vs))) \<and>
   tasks (initial st) = []"
proof -
  have "forEachError v = None \<longleftrightarrow> (\<exists>vs. v = JArray vs \<and> JNull \<notin> set vs)"
    by (cases v) simp_all
  then show ?thesis
    by (auto simp add: loadTasks_def truthy_def initial_def)
qed

lemma malformed_example: "JSON_parse (js ''[{'') = None"
proof -
  have "parseValue (Suc (Suc (Suc n))) (js ''[{'') = None" for n
    by (simp add: js_def skip_ws_def is_ws_def)
  then have "parseValue (Suc (Suc (Suc 2))) (js ''[{'') = None" .
  moreover have "2 * length (js ''[{'') + 1 = Suc (Suc (Suc 2))"
    by (simp add: js_def)
  ultimately show ?thesis
    by (simp only: JSON_parse_def option.case)
qed

lemma null_example: "JSON_parse (js ''null'') = Some JNull"
proof -
  have "parseValue (Suc n) (js ''null'') = Some (JNull, [])" for n
    by (simp add: js_def skip_ws_def is_ws_def parseLiteral_def)
  then have "parseValue (2 * length (js ''null'') + 1) (js ''null'') = Some (JNull, [])"
    by (simp only: Suc_eq_plus1 [symmetric])
  then show ?thesis
    by (simp only: JSON_parse_def) (simp add: skip_ws_def)
qed

lemma numbers_example: "JSON_parse (js ''[1,2]'') = Some (JArray [JNumber (js ''1''), JNumber (js ''2'')])"
proof -
  have "parseValue (Suc (Suc (Suc (Suc n)))) (js ''[1,2]'') =
      Some (JArray [JNumber (js ''1''), JNumber (js ''2'')], [])" for n
    by (simp add: js_def skip_ws_def is_ws_def is_digit_def parseNumber_def parseInt_def
        parseDigits_def parseFraction_def parseExponent_def cons_result_def)
  then have "parseValue (Suc (Suc (Suc (Suc 7)))) (js ''[1,2]'') =
      Some (JArray [JNumber (js ''1''), JNumber (js ''2'')], [])" .
  moreover have "2 * length (js ''[1,2]'') + 1 = Suc (Suc (Suc (Suc 7)))"
    by (simp add: js_def)
  ultimately show ?thesis
    by (simp only: JSON_parse_def) (simp add: skip_ws_def)
qed

theorem load_outcomes_witness:
  "storage (initial Map.empty) (js ''tasks'') = None \<and>
   loadTasks (initial Map.empty) = Fulfilled (initial Map.empty) \<and>
   storage (initial [js ''tasks'' \<mapsto> []]) (js ''tasks'') = Some [] \<and>
   loadTasks (initial [js ''tasks'' \<mapsto> []]) = Fulfilled (initial [js ''tasks'' \<mapsto> []]) \<and>
   storage (initial [js ''tasks'' \<mapsto> js ''[{'']) (js ''tasks'') = Some (js ''[{'') \<and>
   js ''[{'' \<noteq> [] \<and> JSON_parse (js ''[{'') = None \<and>
   loadTasks (initial [js ''tasks'' \<mapsto> js ''[{'']) =
     Rejected SyntaxError (initial [js ''tasks'' \<mapsto> js ''[{'']) \<and>
   storage (initial [js ''tasks'' \<mapsto> js ''[1,2]'']) (js ''tasks'') = Some (js ''[1,2]'') \<and>
   js ''[1,2]'' \<noteq> [] \<and>
   JSON_parse (js ''[1,2]'') = Some (JArray [JNumber (js ''1''), JNumber (js ''2'')]) \<and>
   asTasks (JArray [JNumber (js ''1''), JNumber (js ''2'')]) = None \<and>
   loadTasks (initial [js ''tasks'' \<mapsto> js ''[1,2]'']) =
     Untyped (JArray [JNumber (js ''1''), JNumber (js ''2'')]) None \<and>
   storage (initial [js ''tasks'' \<mapsto>
       JSON_stringify [\<lparr>id_f = js ''1'', text_f = js ''a'', completed = False\<rparr>]])
     (js ''tasks'') =
     Some (JSON_stringify [\<lparr>id_f = js ''1'', text_f = js ''a'', completed = False\<rparr>]) \<and>
   JSON_stringify [\<lparr>id_f = js ''1'', text_f = js ''a'', completed = False\<rparr>] \<noteq> [] \<and>
   JSON_parse (JSON_stringify [\<lparr>id_f = js ''1'', text_f = js ''a'', completed = False\<rparr>]) =
     Some (JArray [toJSON \<lparr>id_f = js ''1'', text_f = js ''a'', completed = False\<rparr>]) \<and>
   asTasks (JArray [toJSON \<lparr>id_f = js ''1'', text_f = js ''a'', completed = False\<rparr>]) =
     Some [\<lparr>id_f = js ''1'', text_f = js ''a'', completed = False\<rparr>] \<and>
   tasks (case loadTasks (initial [js ''tasks'' \<mapsto>
       JSON_stringify [\<lparr>id_f = js ''1'', text_f = js ''a'', completed = False\<rparr>]]) of
     Fulfilled s' \<Rightarrow> s' | Rejected e s' \<Rightarrow> s' | Untyped v e \<Rightarrow> initial Map.empty) =
     [\<lparr>id_f = js ''1'', text_f = js ''a'', completed = False\<rparr>]"
proof -
  let ?t = "\<lparr>id_f = js ''1'', text_f = js ''a'', completed = False\<rparr>"
  let ?st = "[js ''tasks'' \<mapsto> JSON_stringify [?t]]"
  have g: "storage (initial ?st) (js ''tasks'') = Some (JSON_stringify [?t])"
    by (simp add: initial_def)
  have h: "JSON_stringify [?t] \<noteq> []"
    using JSON_stringify_truthy [of "[?t]"] unfolding truthy_def .
  have i: "JSON_parse (JSON_stringify [?t]) = Some (JArray [toJSON ?t])"
    by (simp add: JSON_parse_stringify)
  have j: "asTasks (JArray [toJSON ?t]) = Some [?t]"
    by (simp add: asTask_toJSON)
  from load_outcomes [of "initial ?st" "JSON_stringify [?t]" "JArray [toJSON ?t]" "[?t]"] g h i j
  have "loadTasks (initial ?st) = Fulfilled ((initial ?st)\<lparr>tasks := [?t],
        animations := foldl (\<lambda>newAnimations item. newAnimations(id_f item \<mapsto> 1))
          Map.empty [?t]\<rparr>)"
    by blast
  then have 5: "tasks (case loadTasks (initial ?st) of
     Fulfilled s' \<Rightarrow> s' | Rejected e s' \<Rightarrow> s' | Untyped v e \<Rightarrow> initial Map.empty) = [?t]"
    by simp
  have a: "storage (initial Map.empty) (js ''tasks'') = None"
    by (simp add: initial_def)
  have a': "storage (initial [js ''tasks'' \<mapsto> []]) (js ''tasks'') = Some []"
    by (simp add: initial_def)
  have b: "storage (initial [js ''tasks'' \<mapsto> js ''[{'']) (js ''tasks'') = Some (js ''[{'')"
    by (simp add: initial_def)
  have c: "js ''[{'' \<noteq> []"
    by (simp add: js_def)
  have d: "storage (initial [js ''tasks'' \<mapsto> js ''[1,2]'']) (js ''tasks'') = Some (js ''[1,2]'')"
    by (simp add: initial_def)
  have e: "js ''[1,2]'' \<noteq> []"
    by (simp add: js_def)
  have f: "asTasks (JArray [JNumber (js ''1''), JNumber (js ''2'')]) = None"
    by simp
  from load_outcomes [of "initial Map.empty"] a
  have 1: "loadTasks (initial Map.empty) = Fulfilled (initial Map.empty)"
    by blast
  from load_outcomes [of "initial [js ''tasks'' \<mapsto> []]"] a'
  have 2: "loadTasks (initial [js ''tasks'' \<mapsto> []]) = Fulfilled (initial [js ''tasks'' \<mapsto> []])"
    by blast
  from load_outcomes [of "initial [js ''tasks'' \<mapsto> js ''[{'']" "js ''[{''"]
    b c malformed_example
  have 3: "loadTasks (initial [js ''tasks'' \<mapsto> js ''[{'']) =
     Rejected SyntaxError (initial [js ''tasks'' \<mapsto> js ''[{''])"
    by blast
  from load_outcomes [of "initial [js ''tasks'' \<mapsto> js ''[1,2]'']" "js ''[1,2]''"
      "JArray [JNumber (js ''1''), JNumber (js ''2'')]"] d e numbers_example f
  have "loadTasks (initial [js ''tasks'' \<mapsto> js ''[1,2]'']) =
     Untyped (JArray [JNumber (js ''1''), JNumber (js ''2'')])
       (forEachError (JArray [JNumber (js ''1''), JNumber (js ''2'')]))"
    by blast
  then have 4: "loadTasks (initial [js ''tasks'' \<mapsto> js ''[1,2]'']) =
     Untyped (JArray [JNumber (js ''1''), JNumber (js ''2'')]) None"
    by simp
  from a a' b c d e f g h i j 1 2 3 4 5 malformed_example numbers_example show ?thesis
    by blast
qed

text \<open>
  The claim as it was stated has every malformed payload fail the load with a
  deserialization error and leave the collection as it was. With the text \<open>null\<close>
  stored, \<open>JSON.parse\<close> throws nothing, \<open>setTasks\<close> is given \<open>null\<close>, and what is then
  thrown is the \<open>TypeError\<close> of \<open>forEach\<close>.
\<close>

theorem load_null_counterexample:
  "storage (initial [js ''tasks'' \<mapsto> js ''null'']) (js ''tasks'') = Some (js ''null'') \<and>
   loadTasks (initial [js ''tasks'' \<mapsto> js ''null'']) = Untyped JNull (Some TypeError)"
  by (simp add: loadTasks_def initial_def null_example truthy_def) (simp add: js_def)

end
